theory Spec2Isabelle
  imports Complex_Main "HOL-Library.Multiset"
begin

section \<open>Grid constants, positions and costs\<close>

text \<open>
  The grid of \<^verbatim>\<open>SAR.py\<close> is 25 cells wide and 20 cells high. A position is the Python
  tuple \<^verbatim>\<open>(x, y)\<close> of unbounded integers. The map is the list of rows
  \<^verbatim>\<open>game_map[y][x]\<close> holding the numeric tile codes.
\<close>

definition GRID_WIDTH_CELLS :: int where
  "GRID_WIDTH_CELLS = 25"

definition GRID_HEIGHT_CELLS :: int where
  "GRID_HEIGHT_CELLS = 20"

definition TILE_TYPE_FREE :: int where
  "TILE_TYPE_FREE = 0"

definition TILE_TYPE_OBSTACLE :: int where
  "TILE_TYPE_OBSTACLE = 1"

definition TILE_TYPE_DIFFICULT :: int where
  "TILE_TYPE_DIFFICULT = 2"

definition TILE_TYPE_HAZARD :: int where
  "TILE_TYPE_HAZARD = 3"

definition TILE_TYPE_WATER :: int where
  "TILE_TYPE_WATER = 4"

type_synonym pos = "int \<times> int"

type_synonym grid = "int list list"

text \<open>
  A cost is a Python number that is either an integer or \<^verbatim>\<open>float('inf')\<close>. Python
  compares the two kinds as the linear order below does.
\<close>

datatype cost = Finite int | Infinity

instantiation cost :: linorder
begin

fun less_eq_cost :: "cost \<Rightarrow> cost \<Rightarrow> bool" where
  "less_eq_cost (Finite a) (Finite b) = (a \<le> b)"
| "less_eq_cost Infinity (Finite b) = False"
| "less_eq_cost c Infinity = True"

definition less_cost :: "cost \<Rightarrow> cost \<Rightarrow> bool" where
  "less_cost c d = (c \<le> d \<and> \<not> d \<le> c)"

instance
proof
  fix x y z :: cost
  show "(x < y) = (x \<le> y \<and> \<not> y \<le> x)"
    by (simp add: less_cost_def)
  show "x \<le> x"
    by (cases x) simp_all
  show "x \<le> y \<Longrightarrow> y \<le> z \<Longrightarrow> x \<le> z"
    by (cases x; cases y; cases z) simp_all
  show "x \<le> y \<Longrightarrow> y \<le> x \<Longrightarrow> x = y"
    by (cases x; cases y) simp_all
  show "x \<le> y \<or> y \<le> x"
    by (cases x; cases y) auto
qed

end

text \<open>\<^verbatim>\<open>c + n\<close> for a cost and an integer: infinity absorbs.\<close>

fun cost_add :: "cost \<Rightarrow> int \<Rightarrow> cost" where
  "cost_add (Finite a) n = Finite (a + n)"
| "cost_add Infinity n = Infinity"

datatype error = AttributeError | ValueError | ZeroDivisionError

section \<open>Search nodes and the binary heap of \<^verbatim>\<open>heapq\<close>\<close>

text \<open>
  \<^verbatim>\<open>Node.__init__\<close> stores the parent and the position and sets \<^verbatim>\<open>g\<close>, \<^verbatim>\<open>h\<close> and
  \<^verbatim>\<open>f\<close> to 0; no statement of the program assigns them afterwards.
\<close>

datatype Node = Node (parent: "Node option") (position: pos) (node_g: int) (node_h: int)
  (node_f: int)

definition new_Node :: "pos \<Rightarrow> Node option \<Rightarrow> Node" where
  "new_Node p par = Node par p 0 0 0"

text \<open>\<^verbatim>\<open>Node.__eq__\<close> compares positions, \<^verbatim>\<open>Node.__lt__\<close> compares the \<^verbatim>\<open>f\<close> fields.\<close>

definition Node_eq :: "Node \<Rightarrow> Node \<Rightarrow> bool" where
  "Node_eq a b = (position a = position b)"

definition Node_lt :: "Node \<Rightarrow> Node \<Rightarrow> bool" where
  "Node_lt a b = (node_f a < node_f b)"

text \<open>
  The heap holds tuples \<^verbatim>\<open>(f, node)\<close>. Python compares tuples lexicographically: the
  first components that differ (by \<^verbatim>\<open>==\<close>) decide by \<^verbatim>\<open><\<close>; equal tuples of equal
  length are not less.
\<close>

type_synonym entry = "cost \<times> Node"

definition entry_lt :: "entry \<Rightarrow> entry \<Rightarrow> bool" where
  "entry_lt a b =
    (if fst a \<noteq> fst b then fst a < fst b
     else if \<not> Node_eq (snd a) (snd b) then Node_lt (snd a) (snd b)
     else False)"

text \<open>
  \<^verbatim>\<open>heapq._siftdown(heap, startpos, pos)\<close>: the item at \<open>pos\<close> moves towards the root
  while it is less than its parent.
\<close>

function siftdown_loop :: "entry list \<Rightarrow> nat \<Rightarrow> nat \<Rightarrow> entry \<Rightarrow> entry list" where
  "siftdown_loop heap startpos pos newitem =
    (if pos > startpos then
       (let parentpos = (pos - 1) div 2;
            parent = heap ! parentpos
        in if entry_lt newitem parent
           then siftdown_loop (heap[pos := parent]) startpos parentpos newitem
           else heap[pos := newitem])
     else heap[pos := newitem])"
  by pat_completeness auto
termination
  by (relation "measure (\<lambda>(heap, startpos, pos, newitem). pos)") auto

declare siftdown_loop.simps [simp del]

definition siftdown :: "entry list \<Rightarrow> nat \<Rightarrow> nat \<Rightarrow> entry list" where
  "siftdown heap startpos pos = siftdown_loop heap startpos pos (heap ! pos)"

text \<open>
  \<^verbatim>\<open>heapq._siftup(heap, pos)\<close>: the smaller child moves up until a leaf is reached, the
  item is put there and sifted down (towards the root) again.
\<close>

function siftup_loop :: "entry list \<Rightarrow> nat \<Rightarrow> nat \<Rightarrow> nat \<Rightarrow> entry list \<times> nat" where
  "siftup_loop heap endpos pos childpos =
    (if childpos < endpos then
       (let rightpos = childpos + 1;
            childpos' = (if rightpos < endpos \<and> \<not> entry_lt (heap ! childpos) (heap ! rightpos)
                         then rightpos else childpos)
        in siftup_loop (heap[pos := heap ! childpos']) endpos childpos' (2 * childpos' + 1))
     else (heap, pos))"
  by pat_completeness auto
termination
  by (relation "measure (\<lambda>(heap, endpos, pos, childpos). endpos - childpos)") auto

declare siftup_loop.simps [simp del]

definition siftup :: "entry list \<Rightarrow> nat \<Rightarrow> entry list" where
  "siftup heap pos =
    (let endpos = length heap;
         startpos = pos;
         newitem = heap ! pos;
         (heap', pos') = siftup_loop heap endpos pos (2 * pos + 1)
     in siftdown (heap'[pos' := newitem]) startpos pos')"

definition heappush :: "entry list \<Rightarrow> entry \<Rightarrow> entry list" where
  "heappush heap item = siftdown (heap @ [item]) 0 (length (heap @ [item]) - 1)"

text \<open>\<^verbatim>\<open>heappop\<close> is only called on a non-empty heap (\<^verbatim>\<open>while nodes\<close>).\<close>

definition heappop :: "entry list \<Rightarrow> entry \<times> entry list" where
  "heappop heap =
    (let lastelt = last heap;
         heap' = butlast heap
     in if heap' \<noteq> [] then (heap' ! 0, siftup (heap'[0 := lastelt]) 0)
        else (lastelt, heap'))"

section \<open>The A* search\<close>

definition in_bounds :: "pos \<Rightarrow> bool" where
  "in_bounds p = (0 \<le> fst p \<and> fst p < GRID_WIDTH_CELLS \<and> 0 \<le> snd p \<and> snd p < GRID_HEIGHT_CELLS)"

text \<open>\<^verbatim>\<open>m[p[1]][p[0]]\<close>, read only after the bounds check.\<close>

definition cell :: "grid \<Rightarrow> pos \<Rightarrow> int" where
  "cell m p = m ! nat (snd p) ! nat (fst p)"

definition manhattan :: "pos \<Rightarrow> pos \<Rightarrow> int" where
  "manhattan p q = \<bar>fst p - fst q\<bar> + \<bar>snd p - snd q\<bar>"

definition uniform_cost_map :: grid where
  "uniform_cost_map = replicate (nat GRID_HEIGHT_CELLS) (replicate (nat GRID_WIDTH_CELLS) 1)"

definition cardinal_moves :: "pos list" where
  "cardinal_moves = [(0, -1), (0, 1), (-1, 0), (1, 0)]"

text \<open>\<^verbatim>\<open>g_costs.get(p, float('inf'))\<close>\<close>

definition g_get :: "(pos \<rightharpoonup> cost) \<Rightarrow> pos \<Rightarrow> cost" where
  "g_get g_costs p = (case g_costs p of None \<Rightarrow> Infinity | Some c \<Rightarrow> c)"

text \<open>The path of a node: the positions along the parent links, the node's own first.\<close>

fun chain :: "Node \<Rightarrow> pos list" where
  "chain (Node par p g h f) = p # (case par of None \<Rightarrow> [] | Some n \<Rightarrow> chain n)"

text \<open>One round of the loop over the four moves, for the node just closed.\<close>

definition expand_move ::
  "grid \<Rightarrow> int list \<Rightarrow> grid \<Rightarrow> pos \<Rightarrow> Node \<Rightarrow> pos set
    \<Rightarrow> pos \<Rightarrow> entry list \<times> (pos \<rightharpoonup> cost) \<Rightarrow> entry list \<times> (pos \<rightharpoonup> cost)" where
  "expand_move gm restricted cost_map goal c_node closed_set move st =
    (let nodes = fst st;
         g_costs = snd st;
         p = (fst (position c_node) + fst move, snd (position c_node) + snd move)
     in if \<not> in_bounds p \<or> cell gm p \<in> set restricted \<or> p \<in> closed_set then st
        else
          let new_g = cost_add (g_get g_costs (position c_node)) (cell cost_map p)
          in if new_g < g_get g_costs p
             then (heappush nodes (cost_add new_g (manhattan p goal), new_Node p (Some c_node)),
                   g_costs(p \<mapsto> new_g))
             else st)"

text \<open>
  The \<^verbatim>\<open>while nodes\<close> loop. The result is the pair the Python returns: the path (or
  \<^verbatim>\<open>None\<close>) and the cost.
\<close>

function a_star_loop ::
  "grid \<Rightarrow> int list \<Rightarrow> grid \<Rightarrow> pos \<Rightarrow> entry list \<Rightarrow> pos set \<Rightarrow> (pos \<rightharpoonup> cost)
    \<Rightarrow> pos list option \<times> cost" where
  "a_star_loop gm restricted cost_map goal nodes closed_set g_costs =
    (if nodes = [] then (None, Infinity)
     else
       let c_node = snd (fst (heappop nodes));
           nodes1 = snd (heappop nodes)
       in if position c_node = goal then (Some (rev (chain c_node)), g_get g_costs goal)
          else if position c_node \<in> closed_set
            then a_star_loop gm restricted cost_map goal nodes1 closed_set g_costs
          else
            let closed_set1 = insert (position c_node) closed_set;
                st = fold (expand_move gm restricted cost_map goal c_node closed_set1)
                       cardinal_moves (nodes1, g_costs)
            in a_star_loop gm restricted cost_map goal (fst st) closed_set1 (snd st))"
  by pat_completeness auto

text \<open>
  \<^verbatim>\<open>a_star(start, end, restricted, cost_map=None)\<close>. The start cell is neither bounds-checked
  nor looked up in the map.
\<close>

definition a_star :: "grid \<Rightarrow> pos \<Rightarrow> pos \<Rightarrow> int list \<Rightarrow> grid option \<Rightarrow> pos list option \<times> cost" where
  "a_star gm start goal restricted cost_map =
    a_star_loop gm restricted (case cost_map of None \<Rightarrow> uniform_cost_map | Some cm \<Rightarrow> cm) goal
      [(Finite 0, new_Node start None)] {} [start \<mapsto> Finite 0]"

definition turns_to_reach :: "grid \<Rightarrow> pos \<Rightarrow> pos \<Rightarrow> cost" where
  "turns_to_reach gm start goal = snd (a_star gm start goal [1, 4] None)"

section \<open>Paths, reachability and well-formed grids\<close>

text \<open>
  The notions the properties of the search are stated with. A grid is well formed when it
  has 20 rows of 25 cells, as every map and cost map of the program has; a cell is
  passable for a search when it is inside the grid and its tile is not restricted.
\<close>

definition grid_ok :: "grid \<Rightarrow> bool" where
  "grid_ok m = (length m = nat GRID_HEIGHT_CELLS
     \<and> (\<forall>row \<in> set m. length row = nat GRID_WIDTH_CELLS))"

definition passable :: "grid \<Rightarrow> int list \<Rightarrow> pos \<Rightarrow> bool" where
  "passable gm restricted p = (in_bounds p \<and> cell gm p \<notin> set restricted)"

text \<open>A walk: consecutive positions are cardinal neighbours.\<close>

fun walk :: "pos list \<Rightarrow> bool" where
  "walk [] = True"
| "walk [p] = True"
| "walk (p # q # ps) = (manhattan p q = 1 \<and> walk (q # ps))"

text \<open>
  A cell is reachable from the start when cardinal moves lead to it, each move entering
  a passable cell. The start itself is reachable whatever its tile is.
\<close>

inductive reach :: "grid \<Rightarrow> int list \<Rightarrow> pos \<Rightarrow> pos \<Rightarrow> bool"
  for gm :: grid and restricted :: "int list" and start :: pos where
  reach_start: "reach gm restricted start start"
| reach_step: "reach gm restricted start p \<Longrightarrow> manhattan p q = 1 \<Longrightarrow>
     passable gm restricted q \<Longrightarrow> reach gm restricted start q"

text \<open>
  A node is sound when its parent links lead back to the start and every node but the
  first was created for a passable neighbour of its parent.
\<close>

fun node_ok :: "grid \<Rightarrow> int list \<Rightarrow> pos \<Rightarrow> Node \<Rightarrow> bool" where
  "node_ok gm restricted start (Node par p g h f) =
     (case par of None \<Rightarrow> p = start
      | Some n \<Rightarrow> passable gm restricted p \<and> manhattan (position n) p = 1
          \<and> node_ok gm restricted start n)"

text \<open>The positions on the heap, and the cells that can still be closed.\<close>

definition frontier :: "entry list \<Rightarrow> pos set" where
  "frontier nodes = (position \<circ> snd) ` set nodes"

definition open_cells :: "entry list \<Rightarrow> pos set \<Rightarrow> pos set" where
  "open_cells nodes cl = ({p. in_bounds p} \<union> frontier nodes) - cl"

text \<open>Concrete maps: all free, an obstacle under the start (1, 1), a walled-in corner.\<close>

definition empty_map :: grid where
  "empty_map = replicate 20 (replicate 25 0)"

definition obstacle_start_map :: grid where
  "obstacle_start_map = empty_map[1 := (replicate 25 0)[1 := 1]]"

definition walled_map :: grid where
  "walled_map = empty_map[0 := (replicate 25 0)[1 := 1], 1 := (replicate 25 0)[0 := 1]]"


section \<open>Agent, enemies and the game object\<close>

text \<open>
  The ground robot (\<^verbatim>\<open>class Agent\<close>) and the two kinds of enemies. A
  \<^verbatim>\<open>PatrolObstacle\<close> has a position; an \<^verbatim>\<open>AggressiveObstacle\<close> has in addition its
  detection radius and its mode, the string \<^verbatim>\<open>'patrol'\<close> or \<^verbatim>\<open>'attack'\<close>. The references
  an enemy keeps to the map and to the agent are arguments of its update function.
\<close>

datatype Agent = Agent (agent_x: int) (agent_y: int) (agent_path: "pos list") (score: int)
  (wait_timer: int)

datatype obstacle =
    PatrolObstacle (ox: int) (oy: int)
  | AggressiveObstacle (ox: int) (oy: int) (detection_radius: int) (mode: string)

text \<open>\<^verbatim>\<open>isinstance(o, AggressiveObstacle)\<close>\<close>

fun is_aggressive :: "obstacle \<Rightarrow> bool" where
  "is_aggressive (AggressiveObstacle x y r m) = True"
| "is_aggressive (PatrolObstacle x y) = False"

definition opos :: "obstacle \<Rightarrow> pos" where
  "opos obs = (ox obs, oy obs)"

text \<open>
  The attributes of \<^verbatim>\<open>Game\<close> that the modelled methods read or write. An attribute that
  only some mission set-ups assign (\<^verbatim>\<open>hasattr\<close>, \<^verbatim>\<open>getattr\<close> with a default) is an
  option. The agent is read only in the modes that create one.
\<close>

record game =
  game_mode :: string
  mission_complete :: bool
  mission_failed :: bool
  mission_partial :: bool
  start_time :: int
  final_time :: int
  game_map :: grid
  agent :: Agent
  dynamic_obstacles :: "obstacle list option"
  total_collectibles :: "int option"
  collectibles :: "pos list option"
  land_collectibles :: "pos list option"
  water_collectibles :: "pos list option"
  num_patrol :: "int option"
  num_aggressive :: "int option"

definition agent_pos :: "game \<Rightarrow> pos" where
  "agent_pos g = (agent_x (agent g), agent_y (agent g))"

text \<open>\<^verbatim>\<open>getattr(self, name, [])\<close>\<close>

definition getattr_list :: "'a list option \<Rightarrow> 'a list" where
  "getattr_list a = (case a of None \<Rightarrow> [] | Some xs \<Rightarrow> xs)"

section \<open>Dead ends and the dynamic cost map\<close>

definition is_dead_end :: "game \<Rightarrow> int \<Rightarrow> int \<Rightarrow> bool" where
  "is_dead_end g x y =
    (let targets = getattr_list (collectibles g) @ getattr_list (land_collectibles g)
     in if (x, y) \<in> set targets then False
        else
          let free_neighbors =
                length (filter (\<lambda>d. in_bounds (x + fst d, y + snd d)
                                  \<and> cell (game_map g) (x + fst d, y + snd d) \<noteq> TILE_TYPE_OBSTACLE)
                          [(-1, 0), (1, 0), (0, -1), (0, 1)])
          in free_neighbors \<le> 1)"

text \<open>\<^verbatim>\<open>cost_map[p[1]][p[0]] += v\<close>\<close>

definition cm_add :: "grid \<Rightarrow> pos \<Rightarrow> int \<Rightarrow> grid" where
  "cm_add cm p v =
     cm[nat (snd p) := (cm ! nat (snd p))[nat (fst p) := cm ! nat (snd p) ! nat (fst p) + v]]"

text \<open>The cells in the order of the two nested \<^verbatim>\<open>range\<close> loops, rows outermost.\<close>

definition grid_cells :: "pos list" where
  "grid_cells = concat (map (\<lambda>y. map (\<lambda>x. (x, y)) [0..GRID_WIDTH_CELLS - 1])
                         [0..GRID_HEIGHT_CELLS - 1])"

definition base_cost_map :: "grid \<Rightarrow> grid" where
  "base_cost_map gm = map (\<lambda>y. map (\<lambda>x. 1 + cell gm (x, y) * 5) [0..GRID_WIDTH_CELLS - 1])
                        [0..GRID_HEIGHT_CELLS - 1]"

definition dead_end_step :: "game \<Rightarrow> bool \<Rightarrow> pos \<Rightarrow> grid \<Rightarrow> grid" where
  "dead_end_step g escape p cm =
    (if is_dead_end g (fst p) (snd p) then cm_add cm p (if escape then 4000 else 200) else cm)"

text \<open>
  The offsets \<^verbatim>\<open>(dx, dy)\<close> of the square scanned around an aggressive enemy,
  \<^verbatim>\<open>dy\<close> outermost.
\<close>

definition square_offsets :: "int \<Rightarrow> pos list" where
  "square_offsets e = concat (map (\<lambda>dy. map (\<lambda>dx. (dx, dy)) [- e..e]) [- e..e])"

definition aggressive_step :: "obstacle \<Rightarrow> int \<Rightarrow> pos \<Rightarrow> grid \<Rightarrow> grid" where
  "aggressive_step obs extended_radius d cm =
    (let r = detection_radius obs;
         n = (ox obs + fst d, oy obs + snd d)
     in if in_bounds n then
          let dist = \<bar>fst d\<bar> + \<bar>snd d\<bar>;
              cm1 = (if dist = 0 then cm_add cm n 8000
                     else if dist \<le> 1 then cm_add cm n 3000
                     else if dist \<le> 2 then cm_add cm n 1500
                     else if dist \<le> r then cm_add cm n 800
                     else if dist \<le> extended_radius then cm_add cm n 300
                     else cm)
          in if mode obs = ''attack'' then cm_add cm1 n 2000 else cm1
        else cm)"

definition patrol_step :: "grid \<Rightarrow> obstacle \<Rightarrow> pos \<Rightarrow> grid \<Rightarrow> grid" where
  "patrol_step gm obs d cm =
    (let n = (ox obs + fst d, oy obs + snd d)
     in if in_bounds n \<and> cell gm n \<notin> set [1, 4] then cm_add cm n 1200 else cm)"

text \<open>One round of the loop over the enemies.\<close>

definition obstacle_cost :: "grid \<Rightarrow> bool \<Rightarrow> obstacle \<Rightarrow> grid \<Rightarrow> grid" where
  "obstacle_cost gm escape obs cm =
    (if is_aggressive obs then
       let r = detection_radius obs;
           extended_radius = (if \<not> escape then r + 2 else r + 4)
       in fold (aggressive_step obs extended_radius) (square_offsets extended_radius) cm
     else
       fold (patrol_step gm obs) [(0, 1), (0, -1), (1, 0), (-1, 0)] (cm_add cm (opos obs) 2500))"

definition create_dynamic_cost_map :: "game \<Rightarrow> bool \<Rightarrow> grid" where
  "create_dynamic_cost_map g escape =
    (let cost_map = base_cost_map (game_map g);
         cost_map1 = fold (dead_end_step g escape) grid_cells cost_map
     in fold (obstacle_cost (game_map g) escape) (getattr_list (dynamic_obstacles g)) cost_map1)"

section \<open>The threat scan of the ground mission\<close>

text \<open>
  The loop of \<^verbatim>\<open>update_ground\<close> that collects the threats: \<open>pos\<close> is the agent's position
  read at the start of the tick.
\<close>

definition max_turns :: "obstacle \<Rightarrow> int" where
  "max_turns obs =
    (if is_aggressive obs
       then (let max_turns = detection_radius obs + 2
             in if mode obs = ''attack'' then max_turns + 1 else max_turns)
     else 3)"

definition threat_scan :: "grid \<Rightarrow> obstacle list \<Rightarrow> pos \<Rightarrow> obstacle list" where
  "threat_scan gm obstacles p =
     filter (\<lambda>obs. turns_to_reach gm (opos obs) p \<le> Finite (max_turns obs)) obstacles"

section \<open>The brave planner\<close>

text \<open>\<^verbatim>\<open>bool(path)\<close> for what \<^verbatim>\<open>a_star\<close> returns.\<close>

definition truthy :: "pos list option \<Rightarrow> bool" where
  "truthy path = (case path of None \<Rightarrow> False | Some ps \<Rightarrow> ps \<noteq> [])"

text \<open>
  \<^verbatim>\<open>min(self.turns_to_reach((t.x, t.y), target) for t in ts)\<close>, for a non-empty \<open>ts\<close>.
\<close>

definition min_turns :: "grid \<Rightarrow> obstacle list \<Rightarrow> pos \<Rightarrow> cost" where
  "min_turns gm ts target = min_list (map (\<lambda>t. turns_to_reach gm (opos t) target) ts)"

fun brave_loop :: "game \<Rightarrow> pos \<Rightarrow> obstacle list \<Rightarrow> pos list \<Rightarrow> pos list option" where
  "brave_loop g apos aggressive_threats [] = None"
| "brave_loop g apos aggressive_threats (target # rest) =
    (if is_dead_end g (fst target) (snd target)
       then brave_loop g apos aggressive_threats rest
     else
       let agent_steps = turns_to_reach (game_map g) apos target
       in if agent_steps = Infinity then brave_loop g apos aggressive_threats rest
          else
            let enemy_steps = min_turns (game_map g) aggressive_threats target
            in if agent_steps < cost_add enemy_steps (- 1) then
                 let cost_map = create_dynamic_cost_map g True;
                     path = fst (a_star (game_map g) apos target
                                   [TILE_TYPE_WATER, TILE_TYPE_OBSTACLE] (Some cost_map))
                 in if truthy path then path
                    else brave_loop g apos aggressive_threats rest
               else brave_loop g apos aggressive_threats rest)"

definition find_brave_path :: "game \<Rightarrow> obstacle list \<Rightarrow> error + pos list option" where
  "find_brave_path g threats =
    (let apos = agent_pos g;
         aggressive_threats = filter is_aggressive threats
     in if aggressive_threats = [] then Inr None
        else
          case collectibles g of
            None \<Rightarrow> Inl AttributeError
          | Some cs \<Rightarrow>
              let sorted_collectibles = sort_key (\<lambda>c. \<bar>fst c - fst apos\<bar> + \<bar>snd c - snd apos\<bar>) cs
              in Inr (brave_loop g apos aggressive_threats sorted_collectibles))"

section \<open>The escape planner\<close>

text \<open>The candidate cells, in the order of the three nested loops.\<close>

definition ring_cells :: "grid \<Rightarrow> pos \<Rightarrow> int \<Rightarrow> pos list" where
  "ring_cells gm p r =
     concat (map (\<lambda>i. concat (map (\<lambda>j.
        if \<bar>i\<bar> + \<bar>j\<bar> = r \<and> 0 \<le> fst p + i \<and> fst p + i < GRID_WIDTH_CELLS
           \<and> 0 \<le> snd p + j \<and> snd p + j < GRID_HEIGHT_CELLS
           \<and> cell gm (fst p + i, snd p + j) \<notin> set [1, 4]
        then [(fst p + i, snd p + j)] else []) [- r..r])) [- r..r])"

definition escape_candidates :: "grid \<Rightarrow> pos \<Rightarrow> pos list" where
  "escape_candidates gm p = concat (map (ring_cells gm p) [2..7])"

text \<open>
  The score \<^verbatim>\<open>min(...) * 1.5 - len(path)\<close> is a float that is a multiple of one half
  or infinite; the model keeps twice the score, an integer or infinity. The best score
  starts at \<^verbatim>\<open>-float('inf')\<close>, here \<open>None\<close>.
\<close>

definition score2 :: "cost \<Rightarrow> nat \<Rightarrow> cost" where
  "score2 turns len = (case turns of Infinity \<Rightarrow> Infinity | Finite t \<Rightarrow> Finite (3 * t - 2 * int len))"

definition score_gt :: "cost \<Rightarrow> cost option \<Rightarrow> bool" where
  "score_gt s best = (case best of None \<Rightarrow> True | Some b \<Rightarrow> b < s)"

definition occupied :: "obstacle list \<Rightarrow> pos \<Rightarrow> bool" where
  "occupied obstacles p = (\<exists>obs \<in> set obstacles. p = opos obs)"

text \<open>
  One round of the loop over the candidates; the state is \<^verbatim>\<open>(best_path, best_score)\<close>.
  \<^verbatim>\<open>min\<close> over no threats raises \<^verbatim>\<open>ValueError\<close>.
\<close>

definition escape_step ::
  "game \<Rightarrow> grid \<Rightarrow> obstacle list \<Rightarrow> obstacle list \<Rightarrow> pos
    \<Rightarrow> pos list option \<times> cost option \<Rightarrow> error + (pos list option \<times> cost option)" where
  "escape_step g cost_map threats obstacles spot st =
    (if occupied obstacles spot then Inr st
     else
       let path = fst (a_star (game_map g) (agent_pos g) spot
                         [TILE_TYPE_WATER, TILE_TYPE_OBSTACLE] (Some cost_map))
       in if truthy path \<and> \<not> (\<exists>s \<in> set (the path). occupied obstacles s) then
            if threats = [] then Inl ValueError
            else
              let score = score2 (min_turns (game_map g) threats spot) (length (the path))
              in if score_gt score (snd st) then Inr (path, Some score) else Inr st
          else Inr st)"

fun escape_loop ::
  "game \<Rightarrow> grid \<Rightarrow> obstacle list \<Rightarrow> obstacle list \<Rightarrow> pos list
    \<Rightarrow> pos list option \<times> cost option \<Rightarrow> error + (pos list option \<times> cost option)" where
  "escape_loop g cost_map threats obstacles [] st = Inr st"
| "escape_loop g cost_map threats obstacles (spot # rest) st =
    (case escape_step g cost_map threats obstacles spot st of
       Inl e \<Rightarrow> Inl e
     | Inr st' \<Rightarrow> escape_loop g cost_map threats obstacles rest st')"

definition find_escape_path ::
  "game \<Rightarrow> obstacle list \<Rightarrow> obstacle list \<Rightarrow> error + pos list option" where
  "find_escape_path g threats obstacles =
    (let cost_map = create_dynamic_cost_map g True;
         candidates = escape_candidates (game_map g) (agent_pos g)
     in case escape_loop g cost_map threats obstacles candidates (None, None) of
          Inl e \<Rightarrow> Inl e
        | Inr st \<Rightarrow> Inr (fst st))"

section \<open>Enemy behaviour\<close>

text \<open>
  \<^verbatim>\<open>PatrolObstacle.update\<close>: \<open>gm\<close> is the enemy's own map reference and \<open>rnd\<close> the index
  that \<^verbatim>\<open>random.choice\<close> draws among the possible moves.
\<close>

definition move_to :: "obstacle \<Rightarrow> pos \<Rightarrow> obstacle" where
  "move_to obs p =
    (case obs of PatrolObstacle x y \<Rightarrow> PatrolObstacle (fst p) (snd p)
     | AggressiveObstacle x y r m \<Rightarrow> AggressiveObstacle (fst p) (snd p) r m)"

definition patrol_moves :: "grid \<Rightarrow> int list \<Rightarrow> obstacle \<Rightarrow> pos list" where
  "patrol_moves gm allowed_tiles obs =
     filter (\<lambda>d. in_bounds (ox obs + fst d, oy obs + snd d)
                \<and> cell gm (ox obs + fst d, oy obs + snd d) \<in> set allowed_tiles)
       [(0, 1), (0, -1), (1, 0), (-1, 0)]"

definition PatrolObstacle_update :: "grid \<Rightarrow> int list \<Rightarrow> nat \<Rightarrow> obstacle \<Rightarrow> obstacle" where
  "PatrolObstacle_update gm allowed_tiles rnd obs =
    (let moves = patrol_moves gm allowed_tiles obs
     in if moves \<noteq> [] then
          let d = moves ! (rnd mod length moves)
          in move_to obs (ox obs + fst d, oy obs + snd d)
        else obs)"

text \<open>
  \<^verbatim>\<open>math.hypot(dx, dy) <= r\<close> for integers: the floating-point root of a sum of two
  squares of grid size is at most \<open>r\<close> exactly when the sum is at most \<open>r\<close> squared
  and \<open>r\<close> is not negative.
\<close>

definition hypot_le :: "int \<Rightarrow> int \<Rightarrow> int \<Rightarrow> bool" where
  "hypot_le dx dy r = (0 \<le> r \<and> dx * dx + dy * dy \<le> r * r)"

text \<open>
  \<^verbatim>\<open>AggressiveObstacle.update\<close>: \<open>inst\<close> is \<^verbatim>\<open>Game.get_instance()\<close>, \<open>gm\<close> and \<open>ag\<close> are
  the enemy's own references to the map and the agent.
\<close>

definition AggressiveObstacle_update ::
  "game option \<Rightarrow> grid \<Rightarrow> Agent \<Rightarrow> int list \<Rightarrow> nat \<Rightarrow> obstacle \<Rightarrow> obstacle" where
  "AggressiveObstacle_update inst gm ag allowed_tiles rnd obs =
    (let obs1 = AggressiveObstacle (ox obs) (oy obs) (detection_radius obs)
                  (if hypot_le (ox obs - agent_x ag) (oy obs - agent_y ag) (detection_radius obs)
                   then ''attack'' else ''patrol'')
     in if mode obs1 = ''attack'' then
          (case inst of
             None \<Rightarrow> obs1
           | Some game \<Rightarrow>
               let path_res = fst (a_star (game_map game) (ox obs1, oy obs1)
                                     (agent_x ag, agent_y ag)
                                     [TILE_TYPE_OBSTACLE, TILE_TYPE_WATER] None)
               in if truthy path_res \<and> length (the path_res) > 1
                  then move_to obs1 (the path_res ! 1)
                  else PatrolObstacle_update gm allowed_tiles rnd obs1)
        else PatrolObstacle_update gm allowed_tiles rnd obs1)"


section \<open>What the planners promise\<close>

text \<open>
  The safety margin of the brave planner for a target, and what makes an escape path
  acceptable: no cell under an enemy, and an end on a ring of radius 2 to 7 around the
  agent, inside the grid, neither Obstacle nor Water.
\<close>

definition brave_margin :: "game \<Rightarrow> obstacle list \<Rightarrow> pos \<Rightarrow> bool" where
  "brave_margin g threats t =
     (turns_to_reach (game_map g) (agent_pos g) t
        < cost_add (min_turns (game_map g) (filter is_aggressive threats) t) (- 1))"

definition escape_ok :: "game \<Rightarrow> obstacle list \<Rightarrow> pos list \<Rightarrow> bool" where
  "escape_ok g obstacles path =
     (path \<noteq> [] \<and> (\<forall>s \<in> set path. \<not> occupied obstacles s)
      \<and> 2 \<le> manhattan (agent_pos g) (last path) \<and> manhattan (agent_pos g) (last path) \<le> 7
      \<and> in_bounds (last path) \<and> cell (game_map g) (last path) \<notin> set [1, 4])"

section \<open>Persisted statistics of the ground robot\<close>

text \<open>
  The JSON file \<^verbatim>\<open>ground_robot_stats.json\<close>. The two float fields that hold quotients
  are rationals here; \<^verbatim>\<open>best_time\<close> is an integer or \<^verbatim>\<open>float('inf')\<close>.
\<close>

record stats =
  total_missions :: int
  successful_missions :: int
  failed_missions :: int
  partial_missions :: int
  success_rate :: rat
  average_time :: rat
  best_time :: cost
  total_collectibles_found :: int
  total_enemies_encountered :: int

definition default_stats :: stats where
  "default_stats = \<lparr> total_missions = 0, successful_missions = 0, failed_missions = 0,
     partial_missions = 0, success_rate = 0, average_time = 0, best_time = Infinity,
     total_collectibles_found = 0, total_enemies_encountered = 0 \<rparr>"

text \<open>
  The store is \<open>None\<close> when the file is absent or unreadable; in both cases
  \<^verbatim>\<open>load_ground_robot_stats\<close> answers the defaults.
\<close>

definition load_ground_robot_stats :: "stats option \<Rightarrow> stats" where
  "load_ground_robot_stats store = (case store of None \<Rightarrow> default_stats | Some s \<Rightarrow> s)"

definition update_ground_robot_stats ::
  "string \<Rightarrow> int \<Rightarrow> int \<Rightarrow> int \<Rightarrow> stats option \<Rightarrow> error + stats option" where
  "update_ground_robot_stats result mission_time collectibles_found enemies_count store =
    (let s0 = load_ground_robot_stats store;
         s1 = s0\<lparr> total_missions := total_missions s0 + 1 \<rparr>;
         s2 = (if result = ''success''
                 then s1\<lparr> successful_missions := successful_missions s1 + 1 \<rparr>
               else if result = ''failed''
                 then s1\<lparr> failed_missions := failed_missions s1 + 1 \<rparr>
               else if result = ''partial''
                 then s1\<lparr> partial_missions := partial_missions s1 + 1 \<rparr>
               else s1);
         s3 = (if total_missions s2 > 0
                 then s2\<lparr> success_rate :=
                        (of_int (successful_missions s2) / of_int (total_missions s2)) * 100 \<rparr>
               else s2)
     in if average_time s3 \<noteq> 0 \<and> total_missions s3 = 0 then Inl ZeroDivisionError
        else
          let s4 = (if average_time s3 = 0
                      then s3\<lparr> average_time := of_int mission_time \<rparr>
                    else s3\<lparr> average_time :=
                           (average_time s3 * of_int (total_missions s3 - 1) + of_int mission_time)
                             / of_int (total_missions s3) \<rparr>);
              s5 = (if result = ''success'' \<and> Finite mission_time < best_time s4
                      then s4\<lparr> best_time := Finite mission_time \<rparr>
                    else s4);
              s6 = s5\<lparr> total_collectibles_found := total_collectibles_found s5 + collectibles_found,
                        total_enemies_encountered := total_enemies_encountered s5 + enemies_count \<rparr>
          in Inr (Some s6))"

section \<open>Mission state and its end\<close>

text \<open>
  \<^verbatim>\<open>collected / total > 0.7\<close> is a comparison of floats. For the counts of this program
  (a few dozen at most) the rounded quotient exceeds the double nearest to 0.7 exactly
  when \<open>10 * collected > 7 * total\<close>, which is what the model tests.
\<close>

definition over_70_percent :: "int \<Rightarrow> int \<Rightarrow> bool" where
  "over_70_percent collected tot = (7 * tot < 10 * collected)"

text \<open>The number of collectibles still on the map, as \<^verbatim>\<open>end_mission\<close> counts it.\<close>

definition collectibles_left :: "game \<Rightarrow> error + int" where
  "collectibles_left m =
    (if game_mode m = ''all_agents'' then
       (case (land_collectibles m, water_collectibles m) of
          (Some l, Some w) \<Rightarrow> Inr (int (length l) + int (length w))
        | _ \<Rightarrow> Inl AttributeError)
     else Inr (int (length (case collectibles m of None \<Rightarrow> [] | Some c \<Rightarrow> c))))"

text \<open>The partial-success check: the result string after reclassification.\<close>

definition reclassify :: "string \<Rightarrow> game \<Rightarrow> error + string" where
  "reclassify result m =
    (case total_collectibles m of
       Some tot \<Rightarrow>
         if result = ''failed'' \<and> tot > 0 then
           (case collectibles_left m of
              Inl e \<Rightarrow> Inl e
            | Inr left \<Rightarrow>
                let collected = tot - left
                in if tot > 0 \<and> over_70_percent collected tot then Inr ''partial''
                   else Inr result)
         else Inr result
     | None \<Rightarrow> Inr result)"

definition set_result :: "string \<Rightarrow> game \<Rightarrow> game" where
  "set_result result m =
    (if result = ''success'' then m\<lparr> mission_complete := True \<rparr>
     else if result = ''partial'' then m\<lparr> mission_partial := True \<rparr>
     else m\<lparr> mission_failed := True \<rparr>)"

text \<open>
  \<^verbatim>\<open>end_mission(result)\<close>: \<open>ticks\<close> is what \<^verbatim>\<open>pygame.time.get_ticks()\<close> answers, the
  second component of the state is the statistics file.
\<close>

definition end_mission ::
  "string \<Rightarrow> int \<Rightarrow> game \<times> stats option \<Rightarrow> error + (game \<times> stats option)" where
  "end_mission result ticks w =
    (let m = fst w; store = snd w in
     if mission_complete m \<or> mission_failed m \<or> mission_partial m then Inr w
     else
       let m1 = m\<lparr> final_time := (ticks - start_time m) div 1000 \<rparr> in
       case reclassify result m1 of
         Inl e \<Rightarrow> Inl e
       | Inr result' \<Rightarrow>
           if game_mode m1 = ''ground'' then
             let collectibles_found =
                   (case (total_collectibles m1, collectibles m1) of
                      (Some tot, Some c) \<Rightarrow> tot - int (length c)
                    | _ \<Rightarrow> 0);
                 enemies_count =
                   (case (num_patrol m1, num_aggressive m1) of
                      (Some p, Some a) \<Rightarrow> p + a
                    | _ \<Rightarrow> 0)
             in case update_ground_robot_stats result' (final_time m1) collectibles_found
                       enemies_count store of
                  Inl e \<Rightarrow> Inl e
                | Inr store' \<Rightarrow> Inr (set_result result' m1, store')
           else Inr (set_result result' m1, store))"

text \<open>\<^verbatim>\<open>setup_new_mission\<close> clears the three flags and restarts the clock.\<close>

definition setup_new_mission :: "int \<Rightarrow> game \<Rightarrow> game" where
  "setup_new_mission ticks m =
     m\<lparr> mission_complete := False, mission_failed := False, mission_partial := False,
        start_time := ticks, final_time := 0 \<rparr>"

text \<open>The number of the three outcome flags that are set.\<close>

definition flags_set :: "game \<Rightarrow> nat" where
  "flags_set m = (if mission_complete m then 1 else 0) + (if mission_failed m then 1 else 0)
     + (if mission_partial m then 1 else 0)"

text \<open>
  The states of one \<^verbatim>\<open>Game\<close> object as far as the flags go: a mission is set up, the tick
  functions change attributes other than the three flags (the flags are assigned in
  \<^verbatim>\<open>setup_new_mission\<close> and \<^verbatim>\<open>end_mission\<close> only), and \<^verbatim>\<open>end_mission\<close> is called.
\<close>

inductive reachable :: "game \<times> stats option \<Rightarrow> bool" where
  fresh: "reachable (setup_new_mission ticks m, store)"
| ticked: "reachable (m, store) \<Longrightarrow>
         mission_complete m' = mission_complete m \<Longrightarrow>
         mission_failed m' = mission_failed m \<Longrightarrow>
         mission_partial m' = mission_partial m \<Longrightarrow> reachable (m', store')"
| ended: "reachable w \<Longrightarrow> end_mission result ticks w = Inr w' \<Longrightarrow> reachable w'"

text \<open>Two concrete missions: seven of ten and eight of ten collectibles gathered.\<close>

definition mission_at_70 :: game where
  "mission_at_70 = \<lparr> game_mode = ''coop_ground_drone'', mission_complete = False,
     mission_failed = False, mission_partial = False, start_time = 0, final_time = 0,
     game_map = empty_map, agent = Agent 1 1 [] 0 0, dynamic_obstacles = None,
     total_collectibles = Some 10, collectibles = Some [(3, 3), (4, 4), (5, 5)],
     land_collectibles = None, water_collectibles = None, num_patrol = None,
     num_aggressive = None \<rparr>"

definition mission_at_80 :: game where
  "mission_at_80 = \<lparr> game_mode = ''ground'', mission_complete = False,
     mission_failed = False, mission_partial = False, start_time = 0, final_time = 0,
     game_map = empty_map, agent = Agent 1 1 [] 0 0, dynamic_obstacles = None,
     total_collectibles = Some 10, collectibles = Some [(3, 3), (4, 4)],
     land_collectibles = None, water_collectibles = None, num_patrol = Some 3,
     num_aggressive = Some 2 \<rparr>"

section \<open>Concrete games\<close>

text \<open>An enemy at (0, 0) with the agent three cells away, on the same cell, and far away.\<close>

definition chase_game :: game where
  "chase_game = mission_at_80\<lparr> agent := Agent 3 0 [] 0 0 \<rparr>"

definition far_game :: game where
  "far_game = mission_at_80\<lparr> agent := Agent 20 0 [] 0 0 \<rparr>"

definition caught_game :: game where
  "caught_game = mission_at_80\<lparr> agent := Agent 0 0 [] 0 0 \<rparr>"

text \<open>A corridor in a map of obstacles, with an enemy at the end of its side branch.\<close>

definition corridor_map :: grid where
  "corridor_map = (replicate 20 (replicate 25 1))
     [0 := [0, 0, 0, 0] @ replicate 21 1, 1 := 0 # replicate 24 1, 2 := 0 # replicate 24 1]"

definition corridor_game :: game where
  "corridor_game = mission_at_80\<lparr> game_map := corridor_map, agent := Agent 0 0 [] 0 0,
     collectibles := Some [], dynamic_obstacles := Some [PatrolObstacle 0 2] \<rparr>"

definition brave_game :: game where
  "brave_game = corridor_game\<lparr> collectibles := Some [(3, 0)],
     dynamic_obstacles := Some [AggressiveObstacle 0 2 6 ''patrol''] \<rparr>"

section \<open>The order on costs\<close>

lemma cost_less_simps [simp]:
  "Finite a < Finite b \<longleftrightarrow> a < b"
  "Finite a < Infinity"
  "\<not> Infinity < c"
  by (cases c; auto simp: less_cost_def)+

lemma cost_le_Infinity [simp]: "Infinity \<le> c \<longleftrightarrow> c = Infinity"
  by (cases c) simp_all


section \<open>The heap operations keep the elements\<close>

lemma length_siftdown_loop [simp]:
  "length (siftdown_loop heap startpos pos newitem) = length heap"
  by (induction heap startpos pos newitem rule: siftdown_loop.induct)
     (subst siftdown_loop.simps, simp add: Let_def)

lemma mset_siftdown_loop:
  "pos < length heap \<Longrightarrow>
   mset (siftdown_loop heap startpos pos newitem) = mset (heap[pos := newitem])"
proof (induction heap startpos pos newitem rule: siftdown_loop.induct)
  case (1 heap startpos pos newitem)
  let ?pp = "(pos - 1) div 2"
  show ?case
  proof (cases "pos > startpos \<and> entry_lt newitem (heap ! ?pp)")
    case False
    then show ?thesis by (subst siftdown_loop.simps) (auto simp: Let_def)
  next
    case True
    then have pp: "?pp < pos" by auto
    with "1.prems" have ppl: "?pp < length heap" by simp
    have "siftdown_loop heap startpos pos newitem
        = siftdown_loop (heap[pos := heap ! ?pp]) startpos ?pp newitem"
      using True by (subst siftdown_loop.simps) (simp add: Let_def)
    also have "mset \<dots> = mset ((heap[pos := heap ! ?pp])[?pp := newitem])"
      using "1.IH" [OF _ refl refl] True ppl by simp
    also have "\<dots> = mset (heap[pos := newitem])"
      using pp ppl "1.prems" by (simp add: mset_update)
    finally show ?thesis .
  qed
qed

lemma mset_siftdown: "pos < length heap \<Longrightarrow> mset (siftdown heap startpos pos) = mset heap"
  by (simp add: siftdown_def mset_siftdown_loop)

lemma length_siftup_loop [simp]:
  "length (fst (siftup_loop heap endpos pos childpos)) = length heap"
  by (induction heap endpos pos childpos rule: siftup_loop.induct)
     (subst siftup_loop.simps, simp add: Let_def)

lemma mset_siftup_loop:
  "pos < length heap \<Longrightarrow> endpos \<le> length heap \<Longrightarrow> pos < childpos \<Longrightarrow>
   siftup_loop heap endpos pos childpos = (heap', pos') \<Longrightarrow>
   pos' < length heap \<and> mset (heap'[pos' := x]) = mset (heap[pos := x])"
proof (induction heap endpos pos childpos arbitrary: heap' pos' rule: siftup_loop.induct)
  case (1 heap endpos pos childpos)
  show ?case
  proof (cases "childpos < endpos")
    case False
    then show ?thesis using "1.prems" by (subst (asm) siftup_loop.simps) auto
  next
    case True
    define c where "c = (if childpos + 1 < endpos \<and> \<not> entry_lt (heap ! childpos) (heap ! (childpos + 1))
                         then childpos + 1 else childpos)"
    have c: "c < endpos" "pos < c" "c < length heap" using True "1.prems" by (auto simp: c_def)
    have step: "siftup_loop (heap[pos := heap ! c]) endpos c (2 * c + 1) = (heap', pos')"
      using "1.prems"(4) True by (subst (asm) siftup_loop.simps) (auto simp: Let_def c_def split: if_splits)
    have "pos' < length (heap[pos := heap ! c]) \<and>
        mset (heap'[pos' := x]) = mset ((heap[pos := heap ! c])[c := x])"
      using "1.IH" [OF True refl, of c heap' pos'] c "1.prems" step
      by (simp add: c_def)
    moreover have "mset ((heap[pos := heap ! c])[c := x]) = mset (heap[pos := x])"
      using c "1.prems" by (simp add: mset_update)
    ultimately show ?thesis by simp
  qed
qed


lemma mset_siftup:
  assumes "pos < length heap"
  shows "mset (siftup heap pos) = mset heap"
proof -
  obtain heap' pos' where sl: "siftup_loop heap (length heap) pos (2 * pos + 1) = (heap', pos')"
    by (cases "siftup_loop heap (length heap) pos (2 * pos + 1)")
  from mset_siftup_loop [OF assms _ _ sl, of "heap ! pos"]
  have p: "pos' < length heap" and m: "mset (heap'[pos' := heap ! pos]) = mset heap"
    by simp_all
  have "length heap' = length heap"
    by (metis fst_conv length_siftup_loop sl)
  moreover from sl have "siftup_loop heap (length heap) pos (Suc (2 * pos)) = (heap', pos')"
    by simp
  ultimately show ?thesis
    using p m by (simp add: siftup_def mset_siftdown)
qed

lemma mset_heappush: "mset (heappush heap item) = add_mset item (mset heap)"
  by (simp add: heappush_def mset_siftdown)

lemma mset_heappop:
  assumes "heap \<noteq> []"
  shows "add_mset (fst (heappop heap)) (mset (snd (heappop heap))) = mset heap"
proof (cases "butlast heap = []")
  case True
  with assms have "heap = [last heap]"
    by (metis append_butlast_last_id append_Nil)
  then show ?thesis using True by (simp add: heappop_def)
next
  case False
  let ?b = "butlast heap"
  have h: "heap = ?b @ [last heap]" using assms by simp
  have bl: "0 < length (?b[0 := last heap])" using False by (simp del: length_butlast)
  have "mset (siftup (?b[0 := last heap]) 0) = mset (?b[0 := last heap])"
    by (rule mset_siftup [OF bl])
  also have "\<dots> = add_mset (last heap) (mset ?b - {#?b ! 0#})"
    by (rule mset_update) (use False in \<open>simp del: length_butlast\<close>)
  finally have "add_mset (?b ! 0) (mset (siftup (?b[0 := last heap]) 0))
      = add_mset (last heap) (mset ?b)"
    using False by (simp add: nth_mem del: length_butlast)
  also have "\<dots> = mset heap" by (subst (2) h) simp
  finally show ?thesis using False by (simp add: heappop_def Let_def)
qed

lemma set_heappush [simp]: "set (heappush heap item) = insert item (set heap)"
  using mset_heappush [of heap item] by (metis set_mset_add_mset_insert set_mset_mset)

lemma length_heappush [simp]: "length (heappush heap item) = Suc (length heap)"
  using mset_heappush [of heap item] by (metis size_add_mset size_mset)

lemma heappop_mem: "heap \<noteq> [] \<Longrightarrow> fst (heappop heap) \<in> set heap"
  using mset_heappop [of heap] by (metis set_mset_mset union_single_eq_member)

lemma heappop_subset: "heap \<noteq> [] \<Longrightarrow> set (snd (heappop heap)) \<subseteq> set heap"
  using mset_heappop [of heap] by (metis set_mset_mset set_mset_add_mset_insert subset_insertI)

lemma length_heappop: "heap \<noteq> [] \<Longrightarrow> Suc (length (snd (heappop heap))) = length heap"
  using mset_heappop [of heap] by (metis size_add_mset size_mset)


section \<open>The search terminates\<close>

lemma finite_in_bounds: "finite {p. in_bounds p}"
proof -
  have "{p. in_bounds p} \<subseteq> {0..<GRID_WIDTH_CELLS} \<times> {0..<GRID_HEIGHT_CELLS}"
    by (auto simp: in_bounds_def)
  then show ?thesis by (rule finite_subset) simp
qed

lemma frontier_expand_move:
  "frontier (fst (expand_move gm restricted cost_map goal c_node cl move st))
     \<subseteq> frontier (fst st) \<union> {p. in_bounds p}"
  by (auto simp: expand_move_def Let_def frontier_def new_Node_def)

lemma frontier_fold_expand:
  "frontier (fst (fold (expand_move gm restricted cost_map goal c_node cl) moves st))
     \<subseteq> frontier (fst st) \<union> {p. in_bounds p}"
proof (induction moves arbitrary: st)
  case Nil
  then show ?case by simp
next
  case (Cons move moves)
  show ?case
    using Cons.IH [of "expand_move gm restricted cost_map goal c_node cl move st"]
      frontier_expand_move [of gm restricted cost_map goal c_node cl move st]
    by auto
qed

lemma frontier_heappop:
  "nodes \<noteq> [] \<Longrightarrow> frontier (snd (heappop nodes)) \<subseteq> frontier nodes"
  using heappop_subset [of nodes] by (auto simp: frontier_def)

lemma frontier_popped:
  "nodes \<noteq> [] \<Longrightarrow> position (snd (fst (heappop nodes))) \<in> frontier nodes"
  using heappop_mem [of nodes] by (auto simp: frontier_def)

lemma finite_open_cells: "finite (open_cells nodes cl)"
  by (simp add: open_cells_def finite_in_bounds frontier_def)

termination a_star_loop
proof (relation "inv_image (less_than <*lex*> less_than)
    (\<lambda>(gm, restricted, cost_map, goal, nodes, cl, g_costs).
       (card (open_cells nodes cl), length nodes))", goal_cases)
  case 1
  show ?case by (intro wf_inv_image wf_lex_prod wf_less_than)
next
  case (2 gm restricted cost_map goal nodes cl g_costs c_node nodes1)
  have "open_cells nodes1 cl \<subseteq> open_cells nodes cl"
    using 2 frontier_heappop [of nodes] by (auto simp: open_cells_def)
  then have "card (open_cells nodes1 cl) \<le> card (open_cells nodes cl)"
    by (rule card_mono [OF finite_open_cells])
  moreover have "length nodes1 < length nodes"
    using 2 length_heappop [of nodes] by simp
  ultimately show ?case by auto
next
  case (3 gm restricted cost_map goal nodes cl g_costs c_node nodes1 cl1 st)
  have p: "position c_node \<in> open_cells nodes cl"
    using 3 frontier_popped [of nodes] by (simp add: open_cells_def)
  have "frontier (fst st) \<subseteq> frontier nodes \<union> {p. in_bounds p}"
    using 3 frontier_fold_expand [of gm restricted cost_map goal c_node cl1 cardinal_moves "(nodes1, g_costs)"]
      frontier_heappop [of nodes] by auto
  then have "open_cells (fst st) cl1 \<subseteq> open_cells nodes cl - {position c_node}"
    using 3 by (auto simp: open_cells_def)
  also have "\<dots> \<subset> open_cells nodes cl" using p by auto
  finally have "card (open_cells (fst st) cl1) < card (open_cells nodes cl)"
    by (rule psubset_card_mono [OF finite_open_cells])
  then show ?case by simp
qed

declare a_star_loop.simps [simp del]



section \<open>Returned paths are sound\<close>

lemma chain_hd: "chain n = position n # tl (chain n)"
  by (cases n) simp

lemma chain_ne [simp]: "chain n \<noteq> []"
  by (cases n) simp

lemma hd_chain [simp]: "hd (chain n) = position n"
  by (cases n) simp

lemma manhattan_sym: "manhattan p q = manhattan q p"
  by (simp add: manhattan_def abs_minus_commute)

lemma walk_append:
  "walk (xs @ [p]) = (walk xs \<and> (xs \<noteq> [] \<longrightarrow> manhattan (last xs) p = 1))"
  by (induction xs rule: walk.induct) auto

lemma node_ok_chain:
  "node_ok gm restricted start n \<Longrightarrow>
     last (chain n) = start \<and> walk (rev (chain n))
     \<and> (\<forall>p \<in> set (butlast (chain n)). passable gm restricted p)
     \<and> reach gm restricted start (position n)"
proof (induction n)
  case (Node par p g h f)
  show ?case
  proof (cases par)
    case None
    with Node.prems show ?thesis by (simp add: reach_start)
  next
    case (Some m)
    with Node.prems have ok: "passable gm restricted p" "manhattan (position m) p = 1"
      "node_ok gm restricted start m" by simp_all
    from Node.IH [of m] Some ok(3)
    have ih: "last (chain m) = start" "walk (rev (chain m))"
      "\<forall>p \<in> set (butlast (chain m)). passable gm restricted p"
      "reach gm restricted start (position m)" by simp_all
    have "last (rev (chain m)) = position m" by (simp add: last_rev)
    then have "walk (rev (chain m) @ [p])"
      using ih(2) ok(2) by (simp add: walk_append)
    moreover have "reach gm restricted start p"
      using reach_step [OF ih(4) ok(2) ok(1)] .
    ultimately show ?thesis using Some ih ok(1) by simp
  qed
qed

lemma expand_move_ok:
  assumes "\<forall>e \<in> set (fst st). node_ok gm restricted start (snd e)"
    and "node_ok gm restricted start c_node" and "move \<in> set cardinal_moves"
  shows "\<forall>e \<in> set (fst (expand_move gm restricted cost_map goal c_node cl move st)).
     node_ok gm restricted start (snd e)"
proof -
  have "manhattan (position c_node) (fst (position c_node) + fst move, snd (position c_node) + snd move) = 1"
    using assms(3) by (auto simp: cardinal_moves_def manhattan_def)
  then show ?thesis
    using assms(1,2) by (auto simp: expand_move_def Let_def new_Node_def passable_def)
qed

lemma fold_expand_ok:
  assumes "\<forall>e \<in> set (fst st). node_ok gm restricted start (snd e)"
    and "node_ok gm restricted start c_node" and "set moves \<subseteq> set cardinal_moves"
  shows "\<forall>e \<in> set (fst (fold (expand_move gm restricted cost_map goal c_node cl) moves st)).
     node_ok gm restricted start (snd e)"
  using assms
proof (induction moves arbitrary: st)
  case Nil
  then show ?case by simp
next
  case (Cons move moves)
  have "\<forall>e \<in> set (fst (expand_move gm restricted cost_map goal c_node cl move st)).
     node_ok gm restricted start (snd e)"
    using expand_move_ok [OF Cons.prems(1,2), of move] Cons.prems(3) by auto
  from Cons.IH [OF this Cons.prems(2)] Cons.prems(3) show ?case by auto
qed

lemma a_star_loop_result:
  assumes "\<forall>e \<in> set nodes. node_ok gm restricted start (snd e)"
  shows "a_star_loop gm restricted cost_map goal nodes cl g_costs = (None, Infinity)
    \<or> (\<exists>n c. a_star_loop gm restricted cost_map goal nodes cl g_costs = (Some (rev (chain n)), c)
          \<and> node_ok gm restricted start n \<and> position n = goal)"
  using assms
proof (induction gm restricted cost_map goal nodes cl g_costs rule: a_star_loop.induct)
  case (1 gm restricted cost_map goal nodes cl g_costs)
  show ?case
  proof (cases "nodes = []")
    case True
    then show ?thesis by (subst a_star_loop.simps) simp
  next
    case False
    define c_node where "c_node = snd (fst (heappop nodes))"
    define nodes1 where "nodes1 = snd (heappop nodes)"
    have c_ok: "node_ok gm restricted start c_node"
      using heappop_mem [OF False] "1.prems" by (simp add: c_node_def)
    have n1_ok: "\<forall>e \<in> set nodes1. node_ok gm restricted start (snd e)"
      using heappop_subset [OF False] "1.prems" by (auto simp: nodes1_def)
    show ?thesis
    proof (cases "position c_node = goal")
      case True
      then show ?thesis using False c_ok
        by (subst (1 2) a_star_loop.simps) (auto simp: Let_def c_node_def)
    next
      case ng: False
      show ?thesis
      proof (cases "position c_node \<in> cl")
        case True
        have "a_star_loop gm restricted cost_map goal nodes cl g_costs
            = a_star_loop gm restricted cost_map goal nodes1 cl g_costs"
          using False ng True
          by (subst a_star_loop.simps) (simp add: Let_def c_node_def nodes1_def)
        then show ?thesis
          using "1.IH"(1) [OF False c_node_def nodes1_def ng True n1_ok] by simp
      next
        case ncl: False
        define cl1 where "cl1 = insert (position c_node) cl"
        define st where "st = fold (expand_move gm restricted cost_map goal c_node cl1)
                       cardinal_moves (nodes1, g_costs)"
        have st_ok: "\<forall>e \<in> set (fst st). node_ok gm restricted start (snd e)"
          unfolding st_def by (rule fold_expand_ok) (use n1_ok c_ok in simp_all)
        have "a_star_loop gm restricted cost_map goal nodes cl g_costs
            = a_star_loop gm restricted cost_map goal (fst st) cl1 (snd st)"
          using False ng ncl
          by (subst a_star_loop.simps) (simp add: Let_def c_node_def nodes1_def cl1_def st_def)
        then show ?thesis
          using "1.IH"(2) [OF False c_node_def nodes1_def ng ncl cl1_def st_def st_ok] by simp
      qed
    qed
  qed
qed

lemma a_star_result:
  "a_star gm start goal restricted cost_map = (None, Infinity)
    \<or> (\<exists>n c. a_star gm start goal restricted cost_map = (Some (rev (chain n)), c)
          \<and> node_ok gm restricted start n \<and> position n = goal)"
  unfolding a_star_def
  by (rule a_star_loop_result) (simp add: new_Node_def)


lemma manhattan_1_iff:
  "manhattan p q = 1 \<longleftrightarrow>
     q = (fst p, snd p - 1) \<or> q = (fst p, snd p + 1) \<or> q = (fst p - 1, snd p) \<or> q = (fst p + 1, snd p)"
  by (cases p; cases q) (auto simp: manhattan_def)

text \<open>
  What a returned path looks like: it leads from the start to the goal by cardinal moves.
\<close>

lemma a_star_Some:
  assumes "a_star gm start goal restricted cost_map = (Some path, c)"
  shows "path \<noteq> [] \<and> hd path = start \<and> last path = goal \<and> walk path
    \<and> (\<forall>p \<in> set (tl path). passable gm restricted p)"
proof -
  from a_star_result [of gm start goal restricted cost_map] assms
  obtain n where n: "path = rev (chain n)" "node_ok gm restricted start n" "position n = goal"
    by auto
  from node_ok_chain [OF n(2)] have "last (chain n) = start" "walk (rev (chain n))"
    and b: "\<forall>p \<in> set (butlast (chain n)). passable gm restricted p"
    by simp_all
  moreover have "tl path = rev (butlast (chain n))"
    using n(1) by (simp add: butlast_rev [of "rev (chain n)", simplified] rev_swap)
  ultimately show ?thesis using n(1,3) by (simp add: hd_rev last_rev)
qed

lemma a_star_truthy:
  "truthy (fst (a_star gm start goal restricted cost_map))
     \<longleftrightarrow> (\<exists>path. fst (a_star gm start goal restricted cost_map) = Some path)"
proof -
  have "path \<noteq> []" if "fst (a_star gm start goal restricted cost_map) = Some path" for path
    using a_star_Some [of gm start goal restricted cost_map path
        "snd (a_star gm start goal restricted cost_map)"] that
    by (metis prod.collapse)
  then show ?thesis by (auto simp: truthy_def split: option.splits)
qed

text \<open>
  Claim C2, as stated: no cell of a returned path, the start included, has a restricted
  tile. The ground robot starts at (1, 1) on a random map; when that cell is an obstacle
  the path returned for a neighbouring goal begins on the obstacle.
\<close>

theorem a_star_start_on_obstacle:
  "a_star obstacle_start_map (1, 1) (2, 1) [4, 1] None = (Some [(1, 1), (2, 1)], Finite 1)
   \<and> cell obstacle_start_map (1, 1) \<in> set [4, 1]"
  by code_simp

text \<open>
  Claim C2, amended. A returned path is not empty and begins with the start cell; every
  cell after the first is inside the grid and its tile is not restricted. The start cell
  is not checked, so the whole path is inside the grid and free of restricted tiles
  whenever the start is.
\<close>

theorem a_star_path_cells:
  assumes "a_star gm start goal restricted cost_map = (Some path, c)"
  shows "path \<noteq> [] \<and> hd path = start
    \<and> (\<forall>p \<in> set (tl path). in_bounds p \<and> cell gm p \<notin> set restricted)
    \<and> (in_bounds start \<and> cell gm start \<notin> set restricted
         \<longrightarrow> (\<forall>p \<in> set path. in_bounds p \<and> cell gm p \<notin> set restricted))"
proof -
  from a_star_result [of gm start goal restricted cost_map] assms
  obtain n where n: "path = rev (chain n)" "node_ok gm restricted start n" by auto
  from node_ok_chain [OF n(2)]
  have l: "last (chain n) = start"
    and b: "\<forall>p \<in> set (butlast (chain n)). passable gm restricted p" by simp_all
  have ne: "path \<noteq> []" using n(1) by simp
  have h: "hd path = start" using n(1) l by (simp add: hd_rev)
  have "tl path = rev (butlast (chain n))"
    using n(1) by (simp add: butlast_rev [of "rev (chain n)", simplified] rev_swap)
  with b have t: "\<forall>p \<in> set (tl path). in_bounds p \<and> cell gm p \<notin> set restricted"
    by (simp add: passable_def)
  have "set path = insert start (set (tl path))"
    using ne h by (cases path) auto
  with ne h t show ?thesis by auto
qed

theorem a_star_path_cells_witness:
  "a_star empty_map (0, 0) (3, 0) [1, 4] None = (Some [(0, 0), (1, 0), (2, 0), (3, 0)], Finite 3)
   \<and> in_bounds (1, 0) \<and> cell empty_map (1, 0) \<notin> set [1, 4]
   \<and> in_bounds (2, 0) \<and> cell empty_map (2, 0) \<notin> set [1, 4]
   \<and> in_bounds (3, 0) \<and> cell empty_map (3, 0) \<notin> set [1, 4]"
proof -
  have r: "a_star empty_map (0, 0) (3, 0) [1, 4] None
      = (Some [(0, 0), (1, 0), (2, 0), (3, 0)], Finite 3)"
    by code_simp
  from a_star_path_cells [OF r] r show ?thesis by simp
qed

text \<open>
  Claim C3. On well-formed grids, when the goal cannot be reached from the start by
  cardinal moves that each enter a cell inside the grid with an unrestricted tile, the
  search (a total function: the loop terminates) returns no path (Python's \<^verbatim>\<open>None\<close>,
  which callers test as they would an empty list) and the cost \<^verbatim>\<open>float('inf')\<close>.
\<close>

theorem a_star_unreachable:
  assumes "grid_ok gm"
    and "case cost_map of None \<Rightarrow> True | Some cm \<Rightarrow> grid_ok cm"
    and "\<not> reach gm restricted start goal"
  shows "a_star gm start goal restricted cost_map = (None, Infinity)"
proof -
  from a_star_result [of gm start goal restricted cost_map]
  show ?thesis
  proof
    assume "\<exists>n c. a_star gm start goal restricted cost_map = (Some (rev (chain n)), c)
          \<and> node_ok gm restricted start n \<and> position n = goal"
    then obtain n where "node_ok gm restricted start n" "position n = goal" by blast
    with node_ok_chain [of gm restricted start n] assms(3) show ?thesis by simp
  qed
qed

lemma walled_reach: "reach walled_map [1, 4] (0, 0) p \<Longrightarrow> p = (0, 0)"
proof (induction rule: reach.induct)
  case reach_start
  show ?case by simp
next
  case (reach_step p q)
  then have "q = (0, -1) \<or> q = (0, 1) \<or> q = (-1, 0) \<or> q = (1, 0)"
    by (simp add: manhattan_1_iff)
  moreover have "\<not> passable walled_map [1, 4] (0, -1)" "\<not> passable walled_map [1, 4] (0, 1)"
    "\<not> passable walled_map [1, 4] (-1, 0)" "\<not> passable walled_map [1, 4] (1, 0)"
    by code_simp+
  ultimately show ?case using reach_step.hyps(3) by auto
qed

theorem a_star_unreachable_witness:
  "grid_ok walled_map \<and> \<not> reach walled_map [1, 4] (0, 0) (5, 5)
   \<and> a_star walled_map (0, 0) (5, 5) [1, 4] None = (None, Infinity)"
proof -
  have g: "grid_ok walled_map" by code_simp
  have c: "case (None :: grid option) of None \<Rightarrow> True | Some cm \<Rightarrow> grid_ok cm" by simp
  have r: "\<not> reach walled_map [1, 4] (0, 0) (5, 5)"
    using walled_reach [of "(5, 5)"] by auto
  from a_star_unreachable [OF g c r] g r show ?thesis by simp
qed



section \<open>Threat scan and enemy behaviour\<close>

text \<open>
  Claim C4. The threat scan keeps exactly the enemies whose turns-to-reach the agent is at
  most their threshold: detection radius + 2 for an aggressive enemy, one more in attack
  mode, and 3 for a patrol enemy. On the empty grid an aggressive enemy of radius 6 that is
  3 turns away is a threat, and one 9 turns away in patrol mode is not.
\<close>

theorem threat_scan_threshold:
  "set (threat_scan gm obstacles p)
     = {e \<in> set obstacles. turns_to_reach gm (opos e) p \<le> Finite (max_turns e)}
   \<and> max_turns (AggressiveObstacle x y r m) = r + 2 + (if m = ''attack'' then 1 else 0)
   \<and> max_turns (PatrolObstacle x y) = 3
   \<and> turns_to_reach empty_map (4, 1) (1, 1) = Finite 3
   \<and> threat_scan empty_map [AggressiveObstacle 4 1 6 ''patrol''] (1, 1)
        = [AggressiveObstacle 4 1 6 ''patrol'']
   \<and> turns_to_reach empty_map (10, 1) (1, 1) = Finite 9
   \<and> threat_scan empty_map [AggressiveObstacle 10 1 6 ''patrol''] (1, 1) = []"
proof -
  have "set (threat_scan gm obstacles p)
     = {e \<in> set obstacles. turns_to_reach gm (opos e) p \<le> Finite (max_turns e)}"
    by (auto simp: threat_scan_def)
  moreover have "max_turns (AggressiveObstacle x y r m) = r + 2 + (if m = ''attack'' then 1 else 0)"
    by (simp add: max_turns_def)
  moreover have "max_turns (PatrolObstacle x y) = 3"
    by (simp add: max_turns_def)
  moreover have "turns_to_reach empty_map (4, 1) (1, 1) = Finite 3" by code_simp
  moreover have "threat_scan empty_map [AggressiveObstacle 4 1 6 ''patrol''] (1, 1)
        = [AggressiveObstacle 4 1 6 ''patrol'']" by code_simp
  moreover have "turns_to_reach empty_map (10, 1) (1, 1) = Finite 9" by code_simp
  moreover have "threat_scan empty_map [AggressiveObstacle 10 1 6 ''patrol''] (1, 1) = []"
    by code_simp
  ultimately show ?thesis by blast
qed

lemma walk_second:
  assumes "walk path" "1 < length path"
  shows "manhattan (hd path) (path ! 1) = 1 \<and> path ! 1 \<in> set (tl path)"
proof -
  from assms(2) obtain a b rest where "path = a # b # rest"
    by (cases path; cases "tl path") auto
  with assms(1) show ?thesis by simp
qed

lemma mode_move_to [simp]: "mode (move_to (AggressiveObstacle x y r m) p) = m"
  by (simp add: move_to_def)

lemma mode_PatrolObstacle_update [simp]:
  "mode (PatrolObstacle_update gm allowed rnd (AggressiveObstacle x y r m)) = m"
  by (simp add: PatrolObstacle_update_def Let_def)

text \<open>
  Claim C8, as stated: the plan runs from the agent's position to the enemy's and the enemy
  steps to its second position. With the enemy at (0, 0) and the agent at (3, 0) that
  position is (2, 0); the enemy moves to (1, 0), the second position of the plan from the
  enemy to the agent.
\<close>

theorem aggressive_update_from_agent_fails:
  "AggressiveObstacle_update (Some chase_game) (game_map chase_game) (agent chase_game)
      [0, 2, 3] 0 (AggressiveObstacle 0 0 6 ''patrol'') = AggressiveObstacle 1 0 6 ''attack''
   \<and> fst (a_star (game_map chase_game) (agent_pos chase_game) (0, 0) [1, 4] None)
      = Some [(3, 0), (2, 0), (1, 0), (0, 0)]
   \<and> [(3, 0), (2, 0), (1, 0), (0, 0)] ! 1 = ((2, 0) :: pos)
   \<and> fst (a_star (game_map chase_game) (0, 0) (agent_pos chase_game) [1, 4] None)
      = Some [(0, 0), (1, 0), (2, 0), (3, 0)]"
  by code_simp

text \<open>
  Claim C8, amended. The mode becomes \<^verbatim>\<open>attack\<close> exactly when the Euclidean distance to
  the agent is at most the detection radius. In attack mode (with a game instance) the
  enemy plans from its own position to the agent's with Obstacle and Water restricted; a
  path longer than 1 moves it to the path's second position, a passable cardinal neighbour
  of where it stood; otherwise, and in patrol mode, it makes the random-walk move of a
  patrol enemy.
\<close>

theorem aggressive_update_plan:
  "mode (AggressiveObstacle_update inst gm ag allowed rnd (AggressiveObstacle x y r m))
      = (if hypot_le (x - agent_x ag) (y - agent_y ag) r then ''attack'' else ''patrol'')
    \<and> (hypot_le (x - agent_x ag) (y - agent_y ag) r \<and> inst = Some g
         \<and> a_star (game_map g) (x, y) (agent_x ag, agent_y ag) [1, 4] None = (Some path, c)
         \<and> 1 < length path
       \<longrightarrow> AggressiveObstacle_update inst gm ag allowed rnd (AggressiveObstacle x y r m)
             = AggressiveObstacle (fst (path ! 1)) (snd (path ! 1)) r ''attack''
           \<and> manhattan (x, y) (path ! 1) = 1 \<and> passable (game_map g) [1, 4] (path ! 1))
    \<and> (hypot_le (x - agent_x ag) (y - agent_y ag) r \<and> inst = Some g
         \<and> \<not> (\<exists>path c. a_star (game_map g) (x, y) (agent_x ag, agent_y ag) [1, 4] None
                  = (Some path, c) \<and> 1 < length path)
       \<longrightarrow> AggressiveObstacle_update inst gm ag allowed rnd (AggressiveObstacle x y r m)
             = PatrolObstacle_update gm allowed rnd (AggressiveObstacle x y r ''attack''))
    \<and> (\<not> hypot_le (x - agent_x ag) (y - agent_y ag) r
       \<longrightarrow> AggressiveObstacle_update inst gm ag allowed rnd (AggressiveObstacle x y r m)
             = PatrolObstacle_update gm allowed rnd (AggressiveObstacle x y r ''patrol''))"
proof -
  let ?near = "hypot_le (x - agent_x ag) (y - agent_y ag) r"
  let ?res = "AggressiveObstacle_update inst gm ag allowed rnd (AggressiveObstacle x y r m)"
  have m: "mode ?res = (if ?near then ''attack'' else ''patrol'')"
    by (auto simp: AggressiveObstacle_update_def Let_def split: option.splits)
  have a: "?res = AggressiveObstacle (fst (path ! 1)) (snd (path ! 1)) r ''attack''
           \<and> manhattan (x, y) (path ! 1) = 1 \<and> passable (game_map g) [1, 4] (path ! 1)"
    if "?near" "inst = Some g"
      "a_star (game_map g) (x, y) (agent_x ag, agent_y ag) [1, 4] None = (Some path, c)"
      "1 < length path"
  proof -
    from a_star_Some [OF that(3)] have p: "hd path = (x, y)" "walk path"
      "\<forall>p \<in> set (tl path). passable (game_map g) [1, 4] p" by simp_all
    from walk_second [OF p(2) that(4)] p(1,3)
    have "manhattan (x, y) (path ! 1) = 1" "passable (game_map g) [1, 4] (path ! 1)" by auto
    moreover have "?res = AggressiveObstacle (fst (path ! 1)) (snd (path ! 1)) r ''attack''"
      using that
      by (auto simp: AggressiveObstacle_update_def Let_def truthy_def move_to_def
          TILE_TYPE_OBSTACLE_def TILE_TYPE_WATER_def)
    ultimately show ?thesis by simp
  qed
  have b: "?res = PatrolObstacle_update gm allowed rnd (AggressiveObstacle x y r ''attack'')"
    if "?near" "inst = Some g"
      "\<not> (\<exists>path c. a_star (game_map g) (x, y) (agent_x ag, agent_y ag) [1, 4] None
                  = (Some path, c) \<and> 1 < length path)"
  proof -
    obtain pr c where pc: "a_star (game_map g) (x, y) (agent_x ag, agent_y ag) [1, 4] None = (pr, c)"
      by (cases "a_star (game_map g) (x, y) (agent_x ag, agent_y ag) [1, 4] None")
    with that(3) have "\<not> (truthy pr \<and> 1 < length (the pr))"
      by (cases pr) (auto simp: truthy_def)
    then show ?thesis
      using that(1,2) pc
      by (auto simp: AggressiveObstacle_update_def Let_def
          TILE_TYPE_OBSTACLE_def TILE_TYPE_WATER_def)
  qed
  have c: "?res = PatrolObstacle_update gm allowed rnd (AggressiveObstacle x y r ''patrol'')"
    if "\<not> ?near"
    using that by (simp add: AggressiveObstacle_update_def Let_def)
  from m a b c show ?thesis by blast
qed

theorem aggressive_update_plan_witness:
  "hypot_le (0 - agent_x (agent chase_game)) (0 - agent_y (agent chase_game)) 6
   \<and> a_star (game_map chase_game) (0, 0) (agent_x (agent chase_game), agent_y (agent chase_game))
        [1, 4] None = (Some [(0, 0), (1, 0), (2, 0), (3, 0)], Finite 3)
   \<and> AggressiveObstacle_update (Some chase_game) (game_map chase_game) (agent chase_game)
        [0, 2, 3] 0 (AggressiveObstacle 0 0 6 ''patrol'') = AggressiveObstacle 1 0 6 ''attack''
   \<and> hypot_le (0 - agent_x (agent caught_game)) (0 - agent_y (agent caught_game)) 6
   \<and> a_star (game_map caught_game) (0, 0)
        (agent_x (agent caught_game), agent_y (agent caught_game)) [1, 4] None
        = (Some [(0, 0)], Finite 0)
   \<and> AggressiveObstacle_update (Some caught_game) (game_map caught_game) (agent caught_game)
        [0, 2, 3] 0 (AggressiveObstacle 0 0 6 ''patrol'')
      = PatrolObstacle_update (game_map caught_game) [0, 2, 3] 0 (AggressiveObstacle 0 0 6 ''attack'')
   \<and> \<not> hypot_le (0 - agent_x (agent far_game)) (0 - agent_y (agent far_game)) 6
   \<and> AggressiveObstacle_update (Some far_game) (game_map far_game) (agent far_game)
        [0, 2, 3] 0 (AggressiveObstacle 0 0 6 ''attack'')
      = PatrolObstacle_update (game_map far_game) [0, 2, 3] 0 (AggressiveObstacle 0 0 6 ''patrol'')"
proof -
  have n1: "hypot_le (0 - agent_x (agent chase_game)) (0 - agent_y (agent chase_game)) 6"
    by code_simp
  have p1: "a_star (game_map chase_game) (0, 0)
        (agent_x (agent chase_game), agent_y (agent chase_game)) [1, 4] None
      = (Some [(0, 0), (1, 0), (2, 0), (3, 0)], Finite 3)"
    by code_simp
  have n2: "hypot_le (0 - agent_x (agent caught_game)) (0 - agent_y (agent caught_game)) 6"
    by code_simp
  have p2: "a_star (game_map caught_game) (0, 0)
        (agent_x (agent caught_game), agent_y (agent caught_game)) [1, 4] None
        = (Some [(0, 0)], Finite 0)"
    by code_simp
  have n3: "\<not> hypot_le (0 - agent_x (agent far_game)) (0 - agent_y (agent far_game)) 6"
    by code_simp
  note t1 = aggressive_update_plan [of "Some chase_game" "game_map chase_game" "agent chase_game"
      "[0, 2, 3]" 0 0 0 6 "''patrol''" chase_game "[(0, 0), (1, 0), (2, 0), (3, 0)]" "Finite 3"]
  note t2 = aggressive_update_plan [of "Some caught_game" "game_map caught_game" "agent caught_game"
      "[0, 2, 3]" 0 0 0 6 "''patrol''" caught_game]
  note t3 = aggressive_update_plan [of "Some far_game" "game_map far_game" "agent far_game"
      "[0, 2, 3]" 0 0 0 6 "''attack''"]
  have r1: "AggressiveObstacle_update (Some chase_game) (game_map chase_game) (agent chase_game)
        [0, 2, 3] 0 (AggressiveObstacle 0 0 6 ''patrol'') = AggressiveObstacle 1 0 6 ''attack''"
    using t1 n1 p1 by simp
  have r2: "AggressiveObstacle_update (Some caught_game) (game_map caught_game) (agent caught_game)
        [0, 2, 3] 0 (AggressiveObstacle 0 0 6 ''patrol'')
      = PatrolObstacle_update (game_map caught_game) [0, 2, 3] 0 (AggressiveObstacle 0 0 6 ''attack'')"
    using t2 n2 p2 by simp
  have r3: "AggressiveObstacle_update (Some far_game) (game_map far_game) (agent far_game)
        [0, 2, 3] 0 (AggressiveObstacle 0 0 6 ''attack'')
      = PatrolObstacle_update (game_map far_game) [0, 2, 3] 0 (AggressiveObstacle 0 0 6 ''patrol'')"
    using t3 n3 by simp
  from n1 p1 r1 n2 p2 r2 n3 r3 show ?thesis by blast
qed


section \<open>Escape and brave planners\<close>

lemma candidates_ring:
  assumes "q \<in> set (escape_candidates gm p)"
  shows "2 \<le> manhattan p q \<and> manhattan p q \<le> 7 \<and> in_bounds q \<and> cell gm q \<notin> set [1, 4]"
proof -
  from assms obtain r where r: "r \<in> {2..7}" "q \<in> set (ring_cells gm p r)"
    unfolding escape_candidates_def set_concat set_map set_upto by blast
  from r(2) obtain i j where ij: "\<bar>i\<bar> + \<bar>j\<bar> = r" "q = (fst p + i, snd p + j)"
    "in_bounds q" "cell gm q \<notin> set [1, 4]"
    by (auto simp: ring_cells_def in_bounds_def split: if_splits)
  have "manhattan p q = r" using ij(1,2) by (simp add: manhattan_def)
  with r(1) ij(3,4) show ?thesis by simp
qed

lemma escape_step_ok:
  assumes "escape_step g cm threats obstacles spot st = Inr st'"
    and "spot \<in> set (escape_candidates (game_map g) (agent_pos g))"
    and "\<forall>path. fst st = Some path \<longrightarrow> escape_ok g obstacles path"
  shows "\<forall>path. fst st' = Some path \<longrightarrow> escape_ok g obstacles path"
proof (cases "st' = st")
  case True
  with assms(3) show ?thesis by simp
next
  case False
  let ?res = "a_star (game_map g) (agent_pos g) spot [TILE_TYPE_WATER, TILE_TYPE_OBSTACLE] (Some cm)"
  from False assms(1) have t: "truthy (fst ?res)"
    and no: "\<not> (\<exists>s \<in> set (the (fst ?res)). occupied obstacles s)"
    and st': "fst st' = fst ?res"
    by (auto simp: escape_step_def Let_def split: if_splits)
  from t obtain path where p: "fst ?res = Some path" by (auto simp: truthy_def split: option.splits)
  then have "?res = (Some path, snd ?res)" by (metis prod.collapse)
  from a_star_Some [OF this] have "path \<noteq> []" "last path = spot" by simp_all
  moreover from candidates_ring [OF assms(2)]
  have "2 \<le> manhattan (agent_pos g) spot" "manhattan (agent_pos g) spot \<le> 7"
    "in_bounds spot" "cell (game_map g) spot \<notin> set [1, 4]" by simp_all
  ultimately have "escape_ok g obstacles path"
    using no p by (simp add: escape_ok_def)
  with st' p show ?thesis by simp
qed

lemma escape_loop_ok:
  assumes "escape_loop g cm threats obstacles spots st = Inr st'"
    and "set spots \<subseteq> set (escape_candidates (game_map g) (agent_pos g))"
    and "\<forall>path. fst st = Some path \<longrightarrow> escape_ok g obstacles path"
  shows "\<forall>path. fst st' = Some path \<longrightarrow> escape_ok g obstacles path"
  using assms
proof (induction spots arbitrary: st)
  case Nil
  then show ?case by simp
next
  case (Cons spot spots)
  from Cons.prems(1) obtain st1 where s1: "escape_step g cm threats obstacles spot st = Inr st1"
    and l1: "escape_loop g cm threats obstacles spots st1 = Inr st'"
    by (auto split: sum.splits)
  have "\<forall>path. fst st1 = Some path \<longrightarrow> escape_ok g obstacles path"
    using escape_step_ok [OF s1 _ Cons.prems(3)] Cons.prems(2) by simp
  from Cons.IH [OF l1 _ this] Cons.prems(2) show ?case by simp
qed

text \<open>
  Claim C7. A path returned by the escape planner is not empty, none of its cells is the
  position of an enemy of the list it was given, and its last cell lies at Manhattan
  distance 2 to 7 from the agent, inside the grid, on a tile that is neither Obstacle nor
  Water.
\<close>

theorem find_escape_path_safe:
  assumes "find_escape_path g threats obstacles = Inr (Some path)"
  shows "path \<noteq> [] \<and> (\<forall>s \<in> set path. \<forall>e \<in> set obstacles. s \<noteq> opos e)
    \<and> 2 \<le> manhattan (agent_pos g) (last path) \<and> manhattan (agent_pos g) (last path) \<le> 7
    \<and> in_bounds (last path)
    \<and> cell (game_map g) (last path) \<noteq> TILE_TYPE_OBSTACLE
    \<and> cell (game_map g) (last path) \<noteq> TILE_TYPE_WATER"
proof -
  from assms obtain st where
    l: "escape_loop g (create_dynamic_cost_map g True) threats obstacles
          (escape_candidates (game_map g) (agent_pos g)) (None, None) = Inr st"
    and f: "fst st = Some path"
    by (auto simp: find_escape_path_def Let_def split: sum.splits)
  from escape_loop_ok [OF l] f have "escape_ok g obstacles path" by simp
  then show ?thesis
    by (auto simp: escape_ok_def occupied_def TILE_TYPE_OBSTACLE_def TILE_TYPE_WATER_def)
qed

theorem find_escape_path_safe_witness:
  "find_escape_path corridor_game [PatrolObstacle 0 2] [PatrolObstacle 0 2]
     = Inr (Some [(0, 0), (1, 0), (2, 0), (3, 0)])
   \<and> (0, 0) \<noteq> opos (PatrolObstacle 0 2) \<and> (1, 0) \<noteq> opos (PatrolObstacle 0 2)
   \<and> (2, 0) \<noteq> opos (PatrolObstacle 0 2) \<and> (3, 0) \<noteq> opos (PatrolObstacle 0 2)
   \<and> manhattan (agent_pos corridor_game) (3, 0) = 3 \<and> in_bounds (3, 0)
   \<and> cell (game_map corridor_game) (3, 0) = TILE_TYPE_FREE"
proof -
  have c: "escape_candidates (game_map corridor_game) (agent_pos corridor_game)
      = [(0, 2), (2, 0), (3, 0)]"
    by code_simp
  have l: "escape_loop corridor_game (create_dynamic_cost_map corridor_game True)
      [PatrolObstacle 0 2] [PatrolObstacle 0 2] [(0, 2), (2, 0), (3, 0)] (None, None)
      = Inr (Some [(0, 0), (1, 0), (2, 0), (3, 0)], Some (Finite 7))"
    by code_simp
  have r: "find_escape_path corridor_game [PatrolObstacle 0 2] [PatrolObstacle 0 2]
     = Inr (Some [(0, 0), (1, 0), (2, 0), (3, 0)])"
    unfolding find_escape_path_def Let_def c l by simp
  have m: "manhattan (agent_pos corridor_game) (3, 0) = 3" by code_simp
  have t: "cell (game_map corridor_game) (3, 0) = TILE_TYPE_FREE" by code_simp
  from find_escape_path_safe [OF r] r m t show ?thesis by (simp add: opos_def)
qed

lemma brave_loop_Some:
  assumes "brave_loop g ap ats ts = Some path"
  shows "\<exists>t \<in> set ts. path \<noteq> [] \<and> last path = t
     \<and> turns_to_reach (game_map g) ap t < cost_add (min_turns (game_map g) ats t) (- 1)"
  using assms
proof (induction ts)
  case Nil
  then show ?case by simp
next
  case (Cons target rest)
  let ?res = "a_star (game_map g) ap target [TILE_TYPE_WATER, TILE_TYPE_OBSTACLE]
                (Some (create_dynamic_cost_map g True))"
  show ?case
  proof (cases "brave_loop g ap ats rest = Some path")
    case True
    with Cons.IH show ?thesis by auto
  next
    case False
    with Cons.prems have m: "turns_to_reach (game_map g) ap target
          < cost_add (min_turns (game_map g) ats target) (- 1)"
      and p: "fst ?res = Some path"
      by (auto simp: Let_def split: if_splits)
    from p have "?res = (Some path, snd ?res)" by (metis prod.collapse)
    from a_star_Some [OF this] have "path \<noteq> []" "last path = target" by simp_all
    with m show ?thesis by simp
  qed
qed

lemma brave_loop_None:
  assumes "\<forall>t \<in> set ts. \<not> turns_to_reach (game_map g) ap t
       < cost_add (min_turns (game_map g) ats t) (- 1)"
  shows "brave_loop g ap ats ts = None"
  using assms by (induction ts) (simp_all add: Let_def)

text \<open>
  Claim C6. A path returned by the brave planner ends on a collectible for which the
  agent's turns-to-reach is less than the least turns-to-reach of the aggressive threats
  minus 1; without an aggressive threat, or when no collectible has this margin, the
  planner returns \<^verbatim>\<open>None\<close>.
\<close>

theorem find_brave_path_margin:
  "(find_brave_path g threats = Inr (Some path)
      \<longrightarrow> path \<noteq> [] \<and> last path \<in> set (getattr_list (collectibles g))
          \<and> filter is_aggressive threats \<noteq> [] \<and> brave_margin g threats (last path))
   \<and> (filter is_aggressive threats = [] \<longrightarrow> find_brave_path g threats = Inr None)
   \<and> (collectibles g = Some cs \<and> (\<forall>t \<in> set cs. \<not> brave_margin g threats t)
      \<longrightarrow> find_brave_path g threats = Inr None)"
proof -
  have a: "path \<noteq> [] \<and> last path \<in> set (getattr_list (collectibles g))
          \<and> filter is_aggressive threats \<noteq> [] \<and> brave_margin g threats (last path)"
    if r: "find_brave_path g threats = Inr (Some path)"
  proof -
    from r have ne: "filter is_aggressive threats \<noteq> []"
      by (auto simp: find_brave_path_def Let_def)
    with r obtain cs where cs: "collectibles g = Some cs"
      and l: "brave_loop g (agent_pos g) (filter is_aggressive threats)
            (sort_key (\<lambda>c. \<bar>fst c - fst (agent_pos g)\<bar> + \<bar>snd c - snd (agent_pos g)\<bar>) cs)
          = Some path"
      by (auto simp: find_brave_path_def Let_def split: option.splits)
    from brave_loop_Some [OF l] cs ne show ?thesis
      by (auto simp: brave_margin_def getattr_list_def)
  qed
  have b: "find_brave_path g threats = Inr None" if "filter is_aggressive threats = []"
    using that by (simp add: find_brave_path_def)
  have c: "find_brave_path g threats = Inr None"
    if "collectibles g = Some cs" "\<forall>t \<in> set cs. \<not> brave_margin g threats t"
    using that brave_loop_None [of _ g "agent_pos g" "filter is_aggressive threats"]
    by (simp add: find_brave_path_def Let_def brave_margin_def)
  from a b c show ?thesis by blast
qed

theorem find_brave_path_margin_witness:
  "find_brave_path brave_game [AggressiveObstacle 0 2 6 ''patrol'']
     = Inr (Some [(0, 0), (1, 0), (2, 0), (3, 0)])
   \<and> collectibles brave_game = Some [(3, 0)]
   \<and> turns_to_reach (game_map brave_game) (agent_pos brave_game) (3, 0) = Finite 3
   \<and> min_turns (game_map brave_game) [AggressiveObstacle 0 2 6 ''patrol''] (3, 0) = Finite 5
   \<and> brave_margin brave_game [AggressiveObstacle 0 2 6 ''patrol''] (3, 0)
   \<and> filter is_aggressive [PatrolObstacle 0 2] = []
   \<and> find_brave_path brave_game [PatrolObstacle 0 2] = Inr None
   \<and> \<not> brave_margin brave_game [AggressiveObstacle 1 0 6 ''attack''] (3, 0)
   \<and> find_brave_path brave_game [AggressiveObstacle 1 0 6 ''attack''] = Inr None"
proof -
  have cs: "collectibles brave_game = Some [(3, 0)]" by code_simp
  have ap: "agent_pos brave_game = (0, 0)" by code_simp
  have de: "\<not> is_dead_end brave_game 3 0" by code_simp
  have t: "turns_to_reach (game_map brave_game) (0, 0) (3, 0) = Finite 3" by code_simp
  have e: "min_turns (game_map brave_game) [AggressiveObstacle 0 2 6 ''patrol''] (3, 0) = Finite 5"
    by code_simp
  have p: "fst (a_star (game_map brave_game) (0, 0) (3, 0) [TILE_TYPE_WATER, TILE_TYPE_OBSTACLE]
         (Some (create_dynamic_cost_map brave_game True))) = Some [(0, 0), (1, 0), (2, 0), (3, 0)]"
    by code_simp
  have r1: "find_brave_path brave_game [AggressiveObstacle 0 2 6 ''patrol'']
     = Inr (Some [(0, 0), (1, 0), (2, 0), (3, 0)])"
    by (simp add: find_brave_path_def Let_def cs ap de t e p truthy_def)
  have m1: "brave_margin brave_game [AggressiveObstacle 0 2 6 ''patrol''] (3, 0)"
    by (simp add: brave_margin_def ap t e)
  have e3: "min_turns (game_map brave_game) [AggressiveObstacle 1 0 6 ''attack''] (3, 0) = Finite 2"
    by code_simp
  have m3: "\<not> brave_margin brave_game [AggressiveObstacle 1 0 6 ''attack''] (3, 0)"
    by (simp add: brave_margin_def ap t e3)
  have f2: "filter is_aggressive [PatrolObstacle 0 2] = []" by simp
  note th = find_brave_path_margin [of brave_game _ _ "[(3, 0)]"]
  have r2: "find_brave_path brave_game [PatrolObstacle 0 2] = Inr None"
    using th [of "[PatrolObstacle 0 2]"] f2 by blast
  have r3: "find_brave_path brave_game [AggressiveObstacle 1 0 6 ''attack''] = Inr None"
    using th [of "[AggressiveObstacle 1 0 6 ''attack'']"] cs m3 by simp
  have "brave_margin brave_game [AggressiveObstacle 0 2 6 ''patrol'']
      (last [(0, 0), (1, 0), (2, 0), (3, 0)])"
    using th [of "[AggressiveObstacle 0 2 6 ''patrol'']" "[(0, 0), (1, 0), (2, 0), (3, 0)]"] r1
    by blast
  with r1 cs t e ap m3 f2 r2 r3 show ?thesis by simp
qed

section \<open>The end of a mission: flags and partial success\<close>

lemma flags_set_end_mission:
  assumes "flags_set (fst w) \<le> 1" and "end_mission result ticks w = Inr w'"
  shows "flags_set (fst w') \<le> 1"
  using assms
  by (auto simp: end_mission_def Let_def flags_set_def set_result_def
      split: if_splits sum.splits)

lemma reachable_flags: "reachable w \<Longrightarrow> flags_set (fst w) \<le> 1"
proof (induction rule: reachable.induct)
  case (fresh ticks m f)
  then show ?case by (simp add: flags_set_def setup_new_mission_def)
next
  case (ticked m f m2 f2)
  then show ?case by (simp add: flags_set_def)
next
  case (ended w result ticks w')
  then show ?case using flags_set_end_mission by blast
qed

text \<open>
  Claim C10. In every state a \<^verbatim>\<open>Game\<close> object can reach, at most one of
  \<^verbatim>\<open>mission_complete\<close>, \<^verbatim>\<open>mission_failed\<close>, \<^verbatim>\<open>mission_partial\<close> is set, and once one
  of them is set a call of \<^verbatim>\<open>end_mission\<close> returns the state as it found it: flags,
  \<^verbatim>\<open>final_time\<close> and the statistics file are unchanged.
\<close>

theorem end_mission_at_most_one_flag:
  assumes "reachable w"
  shows "flags_set (fst w) \<le> 1 \<and>
    (mission_complete (fst w) \<or> mission_failed (fst w) \<or> mission_partial (fst w)
       \<longrightarrow> end_mission result ticks w = Inr w)"
  using reachable_flags [OF assms] by (simp add: end_mission_def)

theorem end_mission_at_most_one_flag_witness:
  "reachable (mission_at_70\<lparr> final_time := 5, mission_complete := True \<rparr>, None)
   \<and> flags_set (mission_at_70\<lparr> final_time := 5, mission_complete := True \<rparr>) \<le> 1
   \<and> mission_complete (mission_at_70\<lparr> final_time := 5, mission_complete := True \<rparr>)
   \<and> end_mission ''failed'' 9000
        (mission_at_70\<lparr> final_time := 5, mission_complete := True \<rparr>, None)
      = Inr (mission_at_70\<lparr> final_time := 5, mission_complete := True \<rparr>, None)"
proof -
  have "setup_new_mission 0 mission_at_70 = mission_at_70"
    by (simp add: setup_new_mission_def mission_at_70_def)
  then have r0: "reachable (mission_at_70, None)"
    using reachable.fresh [of 0 mission_at_70 None] by simp
  have "end_mission ''success'' 5000 (mission_at_70, None)
      = Inr (mission_at_70\<lparr> final_time := 5, mission_complete := True \<rparr>, None)"
    by (simp add: end_mission_def mission_at_70_def reclassify_def set_result_def)
  from reachable.ended [OF r0 this]
  have r1: "reachable (mission_at_70\<lparr> final_time := 5, mission_complete := True \<rparr>, None)" .
  show ?thesis
    using end_mission_at_most_one_flag [OF r1, of "''failed''" 9000] r1 by simp
qed

lemma update_stats_Inr:
  assumes "\<forall>s. store = Some s \<longrightarrow> 0 \<le> total_missions s"
  shows "\<exists>s'. update_ground_robot_stats result t c e store = Inr (Some s')
     \<and> partial_missions s' = partial_missions (load_ground_robot_stats store)
          + (if result = ''partial'' then 1 else 0)
     \<and> failed_missions s' = failed_missions (load_ground_robot_stats store)
          + (if result = ''failed'' then 1 else 0)"
proof -
  have "0 \<le> total_missions (load_ground_robot_stats store)"
    using assms by (cases store) (simp_all add: load_ground_robot_stats_def default_stats_def)
  then show ?thesis
    by (simp add: update_ground_robot_stats_def Let_def)
qed

text \<open>
  Claim C9, as stated: a failed mission becomes partial when at least 70 percent of the
  collectibles were gathered. At exactly 70 percent (seven of ten) the code keeps
  \<^verbatim>\<open>failed\<close>: the test is \<^verbatim>\<open>collected / total > 0.7\<close>.
\<close>

theorem end_mission_at_70_percent_stays_failed:
  "end_mission ''failed'' 5000 (mission_at_70, None)
     = Inr (mission_at_70\<lparr> final_time := 5, mission_failed := True \<rparr>, None)
   \<and> total_collectibles mission_at_70 = Some 10
   \<and> collectibles_left mission_at_70 = Inr 3
   \<and> (10 - 3) / (10 :: rat) \<ge> 7 / 10"
  by (simp add: end_mission_def mission_at_70_def reclassify_def collectibles_left_def
      over_70_percent_def set_result_def)

text \<open>
  Claim C9, amended. A mission that ends with result \<^verbatim>\<open>failed\<close>, with a positive total
  of collectibles and no outcome flag set yet, is recorded as partial exactly when the
  fraction gathered is strictly greater than 0.7 (\<open>7 * total < 10 * collected\<close>), and as
  failed otherwise; in ground mode the statistics file counts the same outcome.
\<close>

theorem end_mission_partial_threshold:
  assumes "\<not> mission_complete m \<and> \<not> mission_failed m \<and> \<not> mission_partial m"
    and "total_collectibles m = Some tot" and "0 < tot"
    and "collectibles_left m = Inr left"
    and "game_mode m = ''ground'' \<longrightarrow> (\<forall>s. store = Some s \<longrightarrow> 0 \<le> total_missions s)"
  shows "\<exists>m' store'. end_mission ''failed'' ticks (m, store) = Inr (m', store')
      \<and> mission_partial m' = (7 * tot < 10 * (tot - left))
      \<and> mission_failed m' = (\<not> 7 * tot < 10 * (tot - left))
      \<and> \<not> mission_complete m'
      \<and> (game_mode m = ''ground'' \<longrightarrow> (\<exists>s'. store' = Some s'
           \<and> partial_missions s' = partial_missions (load_ground_robot_stats store)
                + (if 7 * tot < 10 * (tot - left) then 1 else 0)
           \<and> failed_missions s' = failed_missions (load_ground_robot_stats store)
                + (if 7 * tot < 10 * (tot - left) then 0 else 1)))"
proof -
  let ?m1 = "m\<lparr> final_time := (ticks - start_time m) div 1000 \<rparr>"
  let ?over = "7 * tot < 10 * (tot - left)"
  let ?r = "if ?over then ''partial'' else ''failed''"
  have left1: "collectibles_left ?m1 = Inr left"
    using assms(4) by (auto simp: collectibles_left_def split: if_splits option.splits)
  have rc: "reclassify ''failed'' ?m1 = Inr ?r"
    using assms(2,3) left1 by (simp add: reclassify_def over_70_percent_def)
  show ?thesis
  proof (cases "game_mode m = ''ground''")
    case False
    then show ?thesis
      using assms(1) rc by (simp add: end_mission_def set_result_def)
  next
    case True
    let ?found = "case (total_collectibles ?m1, collectibles ?m1) of
                      (Some tot, Some c) \<Rightarrow> tot - int (length c) | _ \<Rightarrow> 0"
    let ?en = "case (num_patrol ?m1, num_aggressive ?m1) of
                      (Some p, Some a) \<Rightarrow> p + a | _ \<Rightarrow> 0"
    from True assms(5) have "\<forall>s. store = Some s \<longrightarrow> 0 \<le> total_missions s" by simp
    from update_stats_Inr [OF this, of ?r "final_time ?m1" ?found ?en]
    obtain s' where s':
      "update_ground_robot_stats ?r (final_time ?m1) ?found ?en store = Inr (Some s')"
      "partial_missions s' = partial_missions (load_ground_robot_stats store)
          + (if ?r = ''partial'' then 1 else 0)"
      "failed_missions s' = failed_missions (load_ground_robot_stats store)
          + (if ?r = ''failed'' then 1 else 0)"
      by blast
    have "end_mission ''failed'' ticks (m, store) = Inr (set_result ?r ?m1, Some s')"
      using assms(1) rc True s'(1) by (simp add: end_mission_def Let_def)
    then show ?thesis
      using s'(2,3) assms(1) by (simp add: set_result_def)
  qed
qed

theorem end_mission_partial_threshold_witness:
  "\<exists>m' store'. end_mission ''failed'' 5000 (mission_at_80, None) = Inr (m', store')
      \<and> mission_partial m' \<and> \<not> mission_failed m' \<and> \<not> mission_complete m'
      \<and> (\<exists>s'. store' = Some s' \<and> partial_missions s' = 1 \<and> failed_missions s' = 0)"
proof -
  have a: "\<not> mission_complete mission_at_80 \<and> \<not> mission_failed mission_at_80
      \<and> \<not> mission_partial mission_at_80"
    by (simp add: mission_at_80_def)
  have b: "total_collectibles mission_at_80 = Some 10"
    by (simp add: mission_at_80_def)
  have c: "collectibles_left mission_at_80 = Inr 2"
    by (simp add: mission_at_80_def collectibles_left_def)
  have d: "game_mode mission_at_80 = ''ground'' \<longrightarrow>
      (\<forall>s. (None :: stats option) = Some s \<longrightarrow> 0 \<le> total_missions s)"
    by simp
  have e: "game_mode mission_at_80 = ''ground''"
    by (simp add: mission_at_80_def)
  show ?thesis
    using end_mission_partial_threshold [OF a b _ c d, of 5000] e
    by (simp add: load_ground_robot_stats_def default_stats_def)
qed

end
